theory Spec2Isabelle
  imports Main
begin

section \<open>JavaScript values and thrown values\<close>

text \<open>
  A JavaScript number is a double.  The numbers of the model are the safe integers
  (\<open>Number.MIN_SAFE_INTEGER\<close> to \<open>Number.MAX_SAFE_INTEGER\<close>), which doubles represent
  exactly and which \<open>String\<close> and \<open>JSON.stringify\<close> print with all their digits.
\<close>

typedef safe_integer = "{n :: int. - 9007199254740991 \<le> n \<and> n \<le> 9007199254740991}"
  morphisms the_int Safe
  by (rule exI [of _ 0]) simp

text \<open>
  The fragment of JavaScript values that the request-handling core inspects:
  \<open>undefined\<close>, \<open>null\<close>, booleans, numbers, strings, BigInts, arrays, plain objects
  (their own properties with distinct keys, in the order of creation) and, for the user
  code that serialization runs, an object whose \<open>toJSON\<close> method or property getter throws
  an error of the given name and message.
\<close>

datatype jsval =
    Undefined
  | Null
  | Bool bool
  | Num safe_integer
  | Str string
  | BigInt int
  | Arr "jsval list"
  | Obj "(string \<times> jsval) list"
  | Throwing string string

text \<open>JavaScript truthiness (\<open>!v\<close> is its negation).\<close>

fun truthy :: "jsval \<Rightarrow> bool" where
  "truthy Undefined = False"
| "truthy Null = False"
| "truthy (Bool b) = b"
| "truthy (Num n) = (the_int n \<noteq> 0)"
| "truthy (Str s) = (s \<noteq> [])"
| "truthy (BigInt n) = (n \<noteq> 0)"
| "truthy (Arr _) = True"
| "truthy (Obj _) = True"
| "truthy (Throwing _ _) = True"

text \<open>
  An error object: the name of its constructor (\<open>Error\<close>, \<open>TypeError\<close>), its message,
  and the optional properties \<open>status\<close>, \<open>expose\<close> and \<open>stack\<close> read by \<open>onerror\<close>.
\<close>

record js_error =
  ename :: string
  emessage :: string
  estatus :: "int option"
  eexpose :: jsval
  estack :: "string option"

text \<open>Anything can be thrown in JavaScript: an error object, or any other value.\<close>

datatype thrown = ErrorObject js_error | NonError jsval

text \<open>
  \<open>new Error(msg)\<close> and its kin.  The stack of a new error starts with the line that
  \<open>toString\<close> gives; the lines for the call frames that follow it depend on where the
  error is made and are left out.
\<close>

definition error_header :: "string \<Rightarrow> string \<Rightarrow> string" where
  "error_header name msg = (if msg = [] then name else name @ '': '' @ msg)"

definition new_error :: "string \<Rightarrow> string \<Rightarrow> thrown" where
  "new_error name msg =
     ErrorObject \<lparr>ename = name, emessage = msg, estatus = None,
                  eexpose = Undefined, estack = Some (error_header name msg)\<rparr>"

definition new_Error :: "string \<Rightarrow> thrown" where
  "new_Error msg = new_error ''Error'' msg"

definition new_TypeError :: "string \<Rightarrow> thrown" where
  "new_TypeError msg = new_error ''TypeError'' msg"

section \<open>koa-compose: the middleware composer\<close>

text \<open>
  A promise is represented by the way it settles; a call either throws synchronously
  or returns such a promise.  The state that a call leaves behind is the state at the
  moment its promise settles: the model covers handlers that await what they start.
\<close>

datatype outcome = Resolved | Rejected thrown

datatype completion = Throws thrown | Returns outcome

text \<open>
  The state of a run: the store of dispatch cursors (every invocation of a composed
  function allocates its own \<open>index\<close> variable, addressed by its position in the
  store) and the shared, mutable context object.
\<close>

record 'c state =
  cursors :: "int list"
  ctx :: 'c

type_synonym 'c comp = "'c state \<Rightarrow> completion \<times> 'c state"

text \<open>
  A middleware function \<open>fn(context, next)\<close> takes the callable \<open>next\<close>; the context
  is the one in the state.
\<close>

type_synonym 'c handler = "'c comp \<Rightarrow> 'c comp"

text \<open>
  The body of a handler written by a user of the library: it settles, throws, updates
  or reads the context, or awaits \<open>next()\<close> and continues with the way that call settled.
  Such a body has no access to the cursor of the pipeline that runs it.
\<close>

datatype 'c prog =
    Resolve
  | Reject thrown
  | Throw thrown
  | Upd "'c \<Rightarrow> 'c" "'c prog"
  | Read "'c \<Rightarrow> 'c prog"
  | AwaitNext "outcome \<Rightarrow> 'c prog"

primrec run :: "'c prog \<Rightarrow> 'c handler" where
  "run Resolve next = (\<lambda>s. (Returns Resolved, s))"
| "run (Reject e) next = (\<lambda>s. (Returns (Rejected e), s))"
| "run (Throw e) next = (\<lambda>s. (Throws e, s))"
| "run (Upd f p) next = (\<lambda>s. run p next (s\<lparr>ctx := f (ctx s)\<rparr>))"
| "run (Read k) next = (\<lambda>s. run (k (ctx s)) next s)"
| "run (AwaitNext k) next = (\<lambda>s.
     case next s of
       (Throws e, s') \<Rightarrow> (Throws e, s')
     | (Returns out, s') \<Rightarrow> run (k out) next s')"

text \<open>
  \<open>let fn = middleware[i]; if (i === middleware.length) fn = next\<close>: reading an array
  out of range gives \<open>undefined\<close>.
\<close>

definition select_fn :: "'c handler list \<Rightarrow> 'c handler option \<Rightarrow> int \<Rightarrow> 'c handler option" where
  "select_fn middleware nxt i =
     (let fn = (if 0 \<le> i \<and> i < int (length middleware) then Some (middleware ! nat i) else None)
      in if i = int (length middleware) then nxt else fn)"

definition multiple_times :: thrown where
  "multiple_times = new_Error ''next() called multiple times''"

text \<open>
  \<open>dispatch(i)\<close> inside one invocation, whose cursor \<open>index\<close> lives at address \<open>a\<close>.
  The callable handed to the handler is \<open>dispatch.bind(null, i + 1)\<close>.
\<close>

function dispatch :: "'c handler list \<Rightarrow> 'c handler option \<Rightarrow> nat \<Rightarrow> int \<Rightarrow> 'c comp" where
  "dispatch middleware nxt a i = (\<lambda>s.
     if i \<le> cursors s ! a then (Returns (Rejected multiple_times), s)
     else
       let s1 = s\<lparr>cursors := (cursors s)[a := i]\<rparr> in
       case select_fn middleware nxt i of
         None \<Rightarrow> (Returns Resolved, s1)
       | Some fn \<Rightarrow>
           (case fn (dispatch middleware nxt a (i + 1)) s1 of
              (Throws err, s2) \<Rightarrow> (Returns (Rejected err), s2)
            | (Returns out, s2) \<Rightarrow> (Returns out, s2)))"
  by pat_completeness auto
termination
  apply (relation "measure (\<lambda>(middleware, nxt, a, i). nat (int (length middleware) + 1 - i))")
   apply simp
  apply (auto simp: select_fn_def split: if_splits)
  done

declare dispatch.simps [simp del]

text \<open>
  The function returned by \<open>compose(middleware)\<close>: \<open>function (context, next)\<close> sets up
  a fresh cursor \<open>let index = -1\<close> and returns \<open>dispatch(0)\<close>.
\<close>

definition pipeline :: "'c handler list \<Rightarrow> 'c handler option \<Rightarrow> 'c comp" where
  "pipeline middleware nxt = (\<lambda>s.
     let a = length (cursors s) in
     dispatch middleware nxt a 0 (s\<lparr>cursors := cursors s @ [- 1]\<rparr>))"

text \<open>
  A composed function used as a middleware of another pipeline: it is called as
  \<open>fn(context, dispatch.bind(null, i + 1))\<close>, so its \<open>next\<close> is the outer bound
  \<open>dispatch\<close>, which ignores the arguments it is later called with.
\<close>

definition as_middleware :: "'c handler list \<Rightarrow> 'c handler" where
  "as_middleware middleware = (\<lambda>next. pipeline middleware (Some (\<lambda>_. next)))"

text \<open>
  \<open>compose\<close> itself: every element of the array must be a function, otherwise a
  \<open>TypeError\<close> is thrown at composition time.  (The argument is an array by its type.)
\<close>

datatype 'c element = Function "'c handler" | NotFunction jsval

fun functions_of :: "'c element list \<Rightarrow> 'c handler list option" where
  "functions_of [] = Some []"
| "functions_of (Function f # ms) = map_option ((#) f) (functions_of ms)"
| "functions_of (NotFunction v # ms) = None"

definition compose :: "'c element list \<Rightarrow> thrown + ('c handler option \<Rightarrow> 'c comp)" where
  "compose middleware =
     (case functions_of middleware of
        None \<Rightarrow> Inl (new_TypeError ''Middleware must be composed of functions!'')
      | Some fs \<Rightarrow> Inr (pipeline fs))"

text \<open>The cursor at address \<open>a\<close> has reached \<open>k\<close>.\<close>

definition at_least :: "nat \<Rightarrow> int \<Rightarrow> 'c state \<Rightarrow> bool" where
  "at_least a k s = (a < length (cursors s) \<and> k \<le> cursors s ! a)"

text \<open>
  A handler of the shape \<open>async (ctx, next) => { before; await next(); after }\<close>:
  a rejection of \<open>next()\<close> propagates, and the code after does not run then.
\<close>

definition onion :: "('c \<Rightarrow> 'c) \<Rightarrow> ('c \<Rightarrow> 'c) \<Rightarrow> 'c prog" where
  "onion before after =
     Upd before (AwaitNext (\<lambda>out. case out of Resolved \<Rightarrow> Upd after Resolve | Rejected e \<Rightarrow> Reject e))"

text \<open>The middleware function with the given code before and code after.\<close>

definition onion_fn :: "('c \<Rightarrow> 'c) \<times> ('c \<Rightarrow> 'c) \<Rightarrow> 'c handler" where
  "onion_fn w = run (onion (fst w) (snd w))"

text \<open>The code after of the handlers \<open>ws\<close>, innermost first, on the way out of a resolved call.\<close>

definition unwind :: "(('c \<Rightarrow> 'c) \<times> ('c \<Rightarrow> 'c)) list \<Rightarrow> completion \<times> 'c state \<Rightarrow> completion \<times> 'c state" where
  "unwind ws res =
     (case res of
        (Returns Resolved, s) \<Rightarrow> (Returns Resolved, s\<lparr>ctx := fold snd (rev ws) (ctx s)\<rparr>)
      | other \<Rightarrow> other)"

text \<open>
  A handler body that, started with the context \<open>c\<close>, resolves without invoking \<open>next\<close>.
\<close>

primrec skips_next :: "'c prog \<Rightarrow> 'c \<Rightarrow> bool" where
  "skips_next Resolve = (\<lambda>c. True)"
| "skips_next (Reject e) = (\<lambda>c. False)"
| "skips_next (Throw e) = (\<lambda>c. False)"
| "skips_next (Upd f p) = (\<lambda>c. skips_next p (f c))"
| "skips_next (Read k) = (\<lambda>c. skips_next (k c) c)"
| "skips_next (AwaitNext k) = (\<lambda>c. False)"

text \<open>
  A handler of the shape
  \<open>async (ctx, next) => { before; await next(); between; await next(); rest }\<close>:
  it invokes \<open>next\<close> a second time once the first call has resolved, and catches nothing.
\<close>

definition twice :: "('c \<Rightarrow> 'c) \<Rightarrow> ('c \<Rightarrow> 'c) \<Rightarrow> 'c prog \<Rightarrow> 'c prog" where
  "twice before between rest =
     Upd before (AwaitNext (\<lambda>out. case out of
         Rejected e \<Rightarrow> Reject e
       | Resolved \<Rightarrow> Upd between (AwaitNext (\<lambda>out2. case out2 of
                        Rejected e \<Rightarrow> Reject e
                      | Resolved \<Rightarrow> rest))))"

text \<open>
  Handlers of the examples: one that awaits \<open>next()\<close> twice, catching what the second call
  gives and recording it in the context; one that rejects after \<open>next()\<close>; one that logs
  before and after \<open>next()\<close>.
\<close>

definition next_twice_caught :: "outcome option prog" where
  "next_twice_caught = AwaitNext (\<lambda>_. AwaitNext (\<lambda>out. Upd (\<lambda>_. Some out) Resolve))"

definition fails_after_next :: "unit prog" where
  "fails_after_next = AwaitNext (\<lambda>_. Reject (new_Error ''boom''))"

definition logging :: "string \<Rightarrow> (string list \<Rightarrow> string list) \<times> (string list \<Rightarrow> string list)" where
  "logging n = (\<lambda>log. log @ [''before'' @ n], \<lambda>log. log @ [''after'' @ n])"

text \<open>
  A handler that answers a preflight request by itself and passes every other request on,
  as the CORS middleware does; the context is the log, in which an earlier handler has
  noted the request method.
\<close>

definition preflight :: "string list prog" where
  "preflight =
     Read (\<lambda>log. if ''OPTIONS'' \<in> set log then Upd (\<lambda>log. log @ [''204'']) Resolve
                 else AwaitNext (\<lambda>out. case out of Resolved \<Rightarrow> Resolve | Rejected e \<Rightarrow> Reject e))"

section \<open>Platform functions used by the response finalizer\<close>

text \<open>\<open>String(n)\<close> for a safe integer: its decimal digits.\<close>

fun digits :: "nat \<Rightarrow> string" where
  "digits n =
     (if n < 10 then [''0123456789'' ! n]
      else digits (n div 10) @ [''0123456789'' ! (n mod 10)])"

declare digits.simps [simp del]

definition String_of :: "safe_integer \<Rightarrow> string" where
  "String_of n =
     (if the_int n < 0 then CHR ''-'' # digits (nat (- the_int n)) else digits (nat (the_int n)))"

text \<open>
  The order in which the own properties of an object are visited: the keys that are
  array indices (canonical decimal numerals below \<open>2^32 - 1\<close>) in ascending numeric
  order, then the other keys in the order of their creation.
\<close>

definition digits_value :: "string \<Rightarrow> nat" where
  "digits_value k = foldl (\<lambda>n c. n * 10 + (of_char c - 48)) 0 k"

definition is_array_index :: "string \<Rightarrow> bool" where
  "is_array_index k =
     (k \<noteq> [] \<and> list_all (\<lambda>c. c \<in> set ''0123456789'') k \<and>
      (k = ''0'' \<or> hd k \<noteq> CHR ''0'') \<and> digits_value k < 4294967295)"

definition own_property_order :: "(string \<times> 'a) list \<Rightarrow> (string \<times> 'a) list" where
  "own_property_order kvs =
     sort_key (\<lambda>kv. digits_value (fst kv)) (filter (\<lambda>kv. is_array_index (fst kv)) kvs) @
     filter (\<lambda>kv. \<not> is_array_index (fst kv)) kvs"

text \<open>
  \<open>JSON.stringify\<close>.  A string is quoted, with the escapes of the JSON grammar;
  \<open>undefined\<close> has no serialization (the result is \<open>undefined\<close>, here \<open>None\<close>), becomes
  \<open>null\<close> inside an array and is left out of an object; a BigInt makes the call throw
  a \<open>TypeError\<close>; what the user code of a value throws is passed on.  The first
  exception met, in the order of the visit, is the one thrown.
\<close>

definition hex_digit :: "nat \<Rightarrow> char" where
  "hex_digit d = ''0123456789abcdef'' ! d"

definition escape_char :: "char \<Rightarrow> string" where
  "escape_char c =
     (if c = CHR 0x22 then [CHR 0x5C, CHR 0x22]
      else if c = CHR 0x5C then [CHR 0x5C, CHR 0x5C]
      else if c = CHR 0x08 then [CHR 0x5C, CHR ''b'']
      else if c = CHR 0x0C then [CHR 0x5C, CHR ''f'']
      else if c = CHR 0x0A then [CHR 0x5C, CHR ''n'']
      else if c = CHR 0x0D then [CHR 0x5C, CHR ''r'']
      else if c = CHR 0x09 then [CHR 0x5C, CHR ''t'']
      else if (of_char c :: nat) < 32
        then [CHR 0x5C, CHR ''u'', CHR ''0'', CHR ''0'',
              hex_digit (of_char c div 16), hex_digit (of_char c mod 16)]
      else [c])"

definition quote :: "string \<Rightarrow> string" where
  "quote s = CHR 0x22 # concat (map escape_char s) @ [CHR 0x22]"

fun join :: "string list \<Rightarrow> string" where
  "join [] = []"
| "join [s] = s"
| "join (s # t # ss) = s @ CHR '','' # join (t # ss)"

function (sequential) JSON_stringify :: "jsval \<Rightarrow> thrown + string option"
  and stringify_elements :: "jsval list \<Rightarrow> thrown + string list"
  and stringify_members :: "(string \<times> jsval) list \<Rightarrow> thrown + string list"
where
  "JSON_stringify Undefined = Inr None"
| "JSON_stringify Null = Inr (Some ''null'')"
| "JSON_stringify (Bool b) = Inr (Some (if b then ''true'' else ''false''))"
| "JSON_stringify (Num n) = Inr (Some (String_of n))"
| "JSON_stringify (Str s) = Inr (Some (quote s))"
| "JSON_stringify (BigInt n) = Inl (new_TypeError ''Do not know how to serialize a BigInt'')"
| "JSON_stringify (Throwing name msg) = Inl (new_error name msg)"
| "JSON_stringify (Arr vs) =
     (case stringify_elements vs of
        Inl e \<Rightarrow> Inl e
      | Inr ss \<Rightarrow> Inr (Some (CHR ''['' # join ss @ '']'')))"
| "JSON_stringify (Obj kvs) =
     (case stringify_members (own_property_order kvs) of
        Inl e \<Rightarrow> Inl e
      | Inr ss \<Rightarrow> Inr (Some (CHR ''{'' # join ss @ ''}'')))"
| "stringify_elements [] = Inr []"
| "stringify_elements (v # vs) =
     (case JSON_stringify v of
        Inl e \<Rightarrow> Inl e
      | Inr t \<Rightarrow>
          (case stringify_elements vs of
             Inl e \<Rightarrow> Inl e
           | Inr ss \<Rightarrow> Inr ((case t of None \<Rightarrow> ''null'' | Some x \<Rightarrow> x) # ss)))"
| "stringify_members [] = Inr []"
| "stringify_members ((k, v) # kvs) =
     (case JSON_stringify v of
        Inl e \<Rightarrow> Inl e
      | Inr t \<Rightarrow>
          (case stringify_members kvs of
             Inl e \<Rightarrow> Inl e
           | Inr ss \<Rightarrow> Inr ((case t of None \<Rightarrow> [] | Some x \<Rightarrow> [quote k @ CHR '':'' # x]) @ ss)))"
  by pat_completeness auto
termination
proof -
  have ins: "size_list f (insort_key g y ys) = Suc (f y + size_list f ys)"
    for f :: "'a \<Rightarrow> nat" and g :: "'a \<Rightarrow> nat" and y ys
    by (induction ys) simp_all
  have srt: "size_list f (sort_key g xs) = size_list f xs"
    for f :: "'a \<Rightarrow> nat" and g :: "'a \<Rightarrow> nat" and xs
    by (induction xs) (simp_all add: ins)
  have flt: "size_list f (filter P xs) + size_list f (filter (\<lambda>x. \<not> P x) xs) = size_list f xs"
    for f :: "'a \<Rightarrow> nat" and P xs
    by (induction xs) simp_all
  have ord: "size_list f (own_property_order kvs) = size_list f kvs"
    for f :: "string \<times> 'a \<Rightarrow> nat" and kvs
    by (simp add: own_property_order_def srt size_list_append flt)
  show ?thesis
    by (lexicographic_order simp: ord)
qed

text \<open>
  \<open>Buffer.byteLength\<close> of a string is the number of its bytes (a \<open>string\<close> is a list
  of bytes); of \<open>undefined\<close> it throws a \<open>TypeError\<close>.
\<close>

definition byteLength :: "string option \<Rightarrow> thrown + nat" where
  "byteLength t =
     (case t of
        None \<Rightarrow> Inl (new_TypeError ''The string argument must be of type string or an instance of Buffer or ArrayBuffer'')
      | Some x \<Rightarrow> Inr (length x))"

section \<open>The application: response finalizer, error handler, request dispatcher\<close>

text \<open>
  The value of \<open>ctx.body\<close>, as the finalizer tells bodies apart: a buffer
  (\<open>Buffer.isBuffer\<close>), a stream (\<open>instanceof Stream\<close>, with the bytes it will
  deliver), or any other value.
\<close>

datatype body = BVal jsval | BBuffer string | BStream string

text \<open>
  Modelled from the spec: the context accessors (\<open>status\<close>, \<open>body\<close>, \<open>message\<close>,
  \<open>type\<close>, \<open>length\<close>, \<open>writable\<close>, \<open>method\<close> as \<open>req_method\<close>) and the outbound handle \<open>res\<close> belong to
  the context and response modules and to the transport, which are not among the
  sources.  The context is a record of the values these accessors read and write:
  \<open>ctx.status\<close> is the outbound status code; \<open>ctx.message\<close> is a getter, the status
  message set on the response or else the reason phrase that the \<open>statuses\<close> table has
  for the current status code, so it is a function of the status code (the empty text
  where there is neither); \<open>ctx.length\<close> is the content-length header,
  \<open>ctx.type\<close> the content-type header; \<open>ended\<close> and \<open>payload\<close> record \<open>res.end\<close> and the
  bytes it was given, \<open>piped\<close> the stream connected to the transport by \<open>pipe\<close>.
\<close>

record koa_context =
  respond_flag :: jsval
  writable :: bool
  status :: safe_integer
  message :: "safe_integer \<Rightarrow> string"
  body :: body
  req_method :: string
  httpVersionMajor :: int
  headersSent :: bool
  ctype :: "string option"
  clength :: "nat option"
  ended :: bool
  payload :: string
  piped :: "string option"

definition res_end :: "string \<Rightarrow> koa_context \<Rightarrow> koa_context" where
  "res_end chunk c = c\<lparr>ended := True, payload := payload c @ chunk\<rparr>"

text \<open>
  Modelled from the spec: \<open>koa-is-json\<close> is a dependency that is not among the sources.
  A body is JSON-serializable when it is set (truthy) and is neither a string, nor a
  stream, nor a buffer.
\<close>

fun isJSON :: "body \<Rightarrow> bool" where
  "isJSON (BVal (Str s)) = False"
| "isJSON (BVal v) = truthy v"
| "isJSON (BBuffer b) = False"
| "isJSON (BStream src) = False"

text \<open>\<open>null == body\<close> holds for \<open>null\<close> and \<open>undefined\<close> only.\<close>

fun nullish :: "body \<Rightarrow> bool" where
  "nullish (BVal Undefined) = True"
| "nullish (BVal Null) = True"
| "nullish _ = False"

text \<open>
  \<open>respond(ctx)\<close>.  The table \<open>statuses.empty\<close> of the body-forbidden status codes comes
  from a dependency that is not among the sources; it is the parameter \<open>statuses_empty\<close>.
  The result is \<open>Inl\<close> when the function throws (from \<open>JSON.stringify\<close> or
  \<open>Buffer.byteLength\<close>), and the context it leaves otherwise.
\<close>

definition respond :: "(safe_integer \<Rightarrow> bool) \<Rightarrow> koa_context \<Rightarrow> thrown + koa_context" where
  "respond statuses_empty c =
    (if respond_flag c = Bool False then Inr c
     else if \<not> writable c then Inr c
     else
       let code = status c in
       if statuses_empty code then Inr (res_end [] (c\<lparr>body := BVal Null\<rparr>))
       else if req_method c = ''HEAD'' then
         (if \<not> headersSent c \<and> isJSON (body c) then
            (case body c of
               BVal v \<Rightarrow>
                 (case JSON_stringify v of
                    Inl e \<Rightarrow> Inl e
                  | Inr t \<Rightarrow>
                      (case byteLength t of
                         Inl e \<Rightarrow> Inl e
                       | Inr n \<Rightarrow> Inr (res_end [] (c\<lparr>clength := Some n\<rparr>))))
             | _ \<Rightarrow> Inr (res_end [] c))
          else Inr (res_end [] c))
       else if nullish (body c) then
         (let msg = (if httpVersionMajor c \<ge> 2 then String_of code
                      else if message c code \<noteq> [] then message c code else String_of code);
              c1 = (if \<not> headersSent c
                    then c\<lparr>ctype := Some ''text'', clength := Some (length msg)\<rparr>
                    else c)
          in Inr (res_end msg c1))
       else
         (case body c of
            BBuffer b \<Rightarrow> Inr (res_end b c)
          | BVal (Str s) \<Rightarrow> Inr (res_end s c)
          | BStream src \<Rightarrow> Inr (c\<lparr>piped := Some src\<rparr>)
          | BVal v \<Rightarrow>
              (case JSON_stringify v of
                 Inl e \<Rightarrow> Inl e
               | Inr None \<Rightarrow>
                   (if \<not> headersSent c then
                      (case byteLength None of Inl e \<Rightarrow> Inl e | Inr n \<Rightarrow> Inr (res_end [] (c\<lparr>clength := Some n\<rparr>)))
                    else Inr (res_end [] c))
               | Inr (Some json) \<Rightarrow>
                   (let c1 = (if \<not> headersSent c then c\<lparr>clength := Some (length json)\<rparr> else c)
                    in Inr (res_end json c1)))))"

text \<open>
  The application's default error handler \<open>onerror(err)\<close>.  The console is the list of
  the arguments of the \<open>console.error\<close> calls made so far (\<open>[]\<close> for a call without
  argument).  \<open>err.status\<close> is a number when present.
\<close>

record application =
  silent :: jsval

text \<open>\<open>msg.replace(/^/gm, '  ')\<close>: two spaces at the start of the text and
  after every line feed and carriage return.\<close>

fun after_breaks :: "string \<Rightarrow> string" where
  "after_breaks [] = []"
| "after_breaks (c # cs) =
     (if c = CHR 0x0A \<or> c = CHR 0x0D then c # ''  '' @ after_breaks cs
      else c # after_breaks cs)"

definition indent :: "string \<Rightarrow> string" where
  "indent msg = ''  '' @ after_breaks msg"

definition toString :: "js_error \<Rightarrow> string" where
  "toString e = (if emessage e = [] then ename e else ename e @ '': '' @ emessage e)"

text \<open>
  \<open>util.format('non-error thrown: %j', err)\<close>: \<open>%j\<close> is \<open>JSON.stringify\<close>, whose exception
  (other than for a circular structure) is passed on.
\<close>

definition format_non_error :: "jsval \<Rightarrow> thrown + string" where
  "format_non_error v =
     (case JSON_stringify v of
        Inl e \<Rightarrow> Inl e
      | Inr None \<Rightarrow> Inr ''non-error thrown: undefined''
      | Inr (Some t) \<Rightarrow> Inr (''non-error thrown: '' @ t))"

definition onerror :: "application \<Rightarrow> thrown \<Rightarrow> string list \<Rightarrow> thrown + string list" where
  "onerror this err console =
     (case err of
        NonError v \<Rightarrow>
          (case format_non_error v of
             Inl e \<Rightarrow> Inl e
           | Inr msg \<Rightarrow> Inl (new_TypeError msg))
      | ErrorObject e \<Rightarrow>
          if estatus e = Some 404 \<or> truthy (eexpose e) then Inr console
          else if truthy (silent this) then Inr console
          else
            let msg = (case estack e of
                         None \<Rightarrow> toString e
                       | Some st \<Rightarrow> if st \<noteq> [] then st else toString e)
            in Inr (console @ [[], indent msg, []]))"


text \<open>
  \<open>handleRequest(ctx, fnMiddleware)\<close>.  The state of a request is the state the
  pipeline runs in, the number of listeners registered with \<open>onFinished\<close> (they fire
  when the transport finishes, after the promise chain modelled here), and the record
  of the calls of the two callbacks \<open>handleResponse\<close> and \<open>onerror\<close>, in order.
  \<open>ctx.onerror\<close> belongs to the context module, which is not among the sources: it is
  the parameter \<open>ctx_onerror\<close>.
\<close>

datatype callback = HandleResponse | OnError thrown

record request =
  run_state :: "koa_context state"
  finished_listeners :: nat
  calls :: "callback list"

definition call_onerror ::
  "(thrown \<Rightarrow> koa_context \<Rightarrow> thrown + koa_context) \<Rightarrow> thrown \<Rightarrow> request \<Rightarrow> completion \<times> request" where
  "call_onerror ctx_onerror err r =
     (let r1 = r\<lparr>calls := calls r @ [OnError err]\<rparr> in
      case ctx_onerror err (ctx (run_state r1)) of
        Inl e \<Rightarrow> (Returns (Rejected e), r1)
      | Inr c \<Rightarrow> (Returns Resolved, r1\<lparr>run_state := (run_state r1)\<lparr>ctx := c\<rparr>\<rparr>))"

definition call_handleResponse ::
  "(safe_integer \<Rightarrow> bool) \<Rightarrow> request \<Rightarrow> outcome \<times> request" where
  "call_handleResponse statuses_empty r =
     (let r1 = r\<lparr>calls := calls r @ [HandleResponse]\<rparr> in
      case respond statuses_empty (ctx (run_state r1)) of
        Inl e \<Rightarrow> (Rejected e, r1)
      | Inr c \<Rightarrow> (Resolved, r1\<lparr>run_state := (run_state r1)\<lparr>ctx := c\<rparr>\<rparr>))"

definition handleRequest ::
  "(safe_integer \<Rightarrow> bool) \<Rightarrow> (thrown \<Rightarrow> koa_context \<Rightarrow> thrown + koa_context) \<Rightarrow> koa_context comp \<Rightarrow>
     request \<Rightarrow> completion \<times> request" where
  "handleRequest statuses_empty ctx_onerror fnMiddleware r =
     (let s0 = run_state r;
          r1 = r\<lparr>run_state := s0\<lparr>ctx := (ctx s0)\<lparr>status := Safe 404\<rparr>\<rparr>,
                 finished_listeners := Suc (finished_listeners r)\<rparr>
      in case fnMiddleware (run_state r1) of
           (Throws e, s) \<Rightarrow> (Throws e, r1\<lparr>run_state := s\<rparr>)
         | (Returns Resolved, s) \<Rightarrow>
             (case call_handleResponse statuses_empty (r1\<lparr>run_state := s\<rparr>) of
                (Resolved, r2) \<Rightarrow> (Returns Resolved, r2)
              | (Rejected e, r2) \<Rightarrow> call_onerror ctx_onerror e r2)
         | (Returns (Rejected e), s) \<Rightarrow> call_onerror ctx_onerror e (r1\<lparr>run_state := s\<rparr>))"

text \<open>Inputs of the examples.\<close>

definition no_body_codes :: "safe_integer \<Rightarrow> bool" where
  "no_body_codes code = (the_int code = 204 \<or> the_int code = 205 \<or> the_int code = 304)"

definition reason_phrase :: "safe_integer \<Rightarrow> string" where
  "reason_phrase code =
     (if the_int code = 200 then ''OK''
      else if the_int code = 204 then ''No Content''
      else if the_int code = 404 then ''Not Found''
      else [])"

definition fresh_context :: koa_context where
  "fresh_context =
     \<lparr>respond_flag = Undefined, writable = True, status = Safe 200,
      message = reason_phrase,
      body = BVal Undefined, req_method = ''GET'', httpVersionMajor = 1,
      headersSent = False, ctype = None, clength = None, ended = False,
      payload = [], piped = None\<rparr>"

definition fresh_request :: request where
  "fresh_request =
     \<lparr>run_state = \<lparr>cursors = [], ctx = fresh_context\<rparr>, finished_listeners = 0, calls = []\<rparr>"

definition a_is_1 :: jsval where
  "a_is_1 = Obj [(''a'', Num (Safe 1))]"

definition set_bigint_body :: "koa_context prog" where
  "set_bigint_body = Upd (\<lambda>c. c\<lparr>status := Safe 200, body := BVal (Obj [(''a'', BigInt 1)])\<rparr>) Resolve"

definition ignore_error :: "thrown \<Rightarrow> koa_context \<Rightarrow> thrown + koa_context" where
  "ignore_error err c = Inr c"


text \<open>
  Nested composition.  The handler bodies \<open>bs\<close> are composed on their own and the
  composed function stands as one handler between the handlers \<open>as\<close> and \<open>cs\<close>
  (\<open>nested\<close>), or all bodies are composed as one sequence (\<open>flat\<close>).
\<close>

definition flat :: "'c prog list \<Rightarrow> 'c prog list \<Rightarrow> 'c prog list \<Rightarrow> 'c handler list" where
  "flat as bs cs = map run (as @ bs @ cs)"

definition nested :: "'c prog list \<Rightarrow> 'c prog list \<Rightarrow> 'c prog list \<Rightarrow> 'c handler list" where
  "nested as bs cs = map run as @ as_middleware (map run bs) # map run cs"

text \<open>
  Two runs, one of each pipeline, give the same result when they settle in the same way
  and leave states related by \<open>R\<close>.
\<close>

definition same_result :: "('c state \<Rightarrow> 'c state \<Rightarrow> bool) \<Rightarrow> completion \<times> 'c state \<Rightarrow> completion \<times> 'c state \<Rightarrow> bool" where
  "same_result R x y = (fst x = fst y \<and> R (snd x) (snd y))"

text \<open>
  The states of the two runs correspond as follows; \<open>a\<close> is the address of the cursor of
  the flat pipeline and of the outer pipeline, \<open>a + 1\<close> the address of the cursor of the
  inner pipeline once it is allocated, \<open>k\<close> and \<open>m\<close> the lengths of \<open>as\<close> and \<open>bs\<close>, and
  \<open>lo\<close> a lower bound of the flat cursor.  Once the inner pipeline has reached its end,
  the flat cursor is \<open>m - 1\<close> ahead of the outer one (\<open>rel_after\<close>); while the inner pipeline
  runs, the outer cursor stays at \<open>k\<close> and the flat cursor is \<open>k\<close> ahead of the inner one
  (\<open>rel_inner\<close>); before the inner pipeline is invoked, the flat and the outer cursor
  agree (\<open>rel_before\<close>).
\<close>

definition rel_after :: "nat \<Rightarrow> nat \<Rightarrow> nat \<Rightarrow> int \<Rightarrow> 'c state \<Rightarrow> 'c state \<Rightarrow> bool" where
  "rel_after a k m lo s1 s2 =
     (ctx s1 = ctx s2 \<and> length (cursors s1) = a + 1 \<and> length (cursors s2) = a + 2 \<and>
      cursors s2 ! (a + 1) = int m \<and> int k \<le> cursors s2 ! a \<and>
      cursors s1 ! a = cursors s2 ! a + int m - 1 \<and> lo \<le> cursors s1 ! a)"

text \<open>The \<open>next\<close> that the outer pipeline hands to the inner one.\<close>

definition handover :: "'c prog list \<Rightarrow> 'c prog list \<Rightarrow> 'c prog list \<Rightarrow> 'c handler option \<Rightarrow> nat \<Rightarrow> 'c handler option" where
  "handover as bs cs nxt a =
     Some (\<lambda>_. dispatch (nested as bs cs) nxt a (int (length as) + 1))"

definition rel_inner :: "nat \<Rightarrow> nat \<Rightarrow> nat \<Rightarrow> int \<Rightarrow> 'c state \<Rightarrow> 'c state \<Rightarrow> bool" where
  "rel_inner a k m lo s1 s2 =
     (ctx s1 = ctx s2 \<and> length (cursors s1) = a + 1 \<and> length (cursors s2) = a + 2 \<and>
      lo \<le> cursors s1 ! a \<and>
      (cursors s2 ! a = int k \<and> - 1 \<le> cursors s2 ! (a + 1) \<and> cursors s2 ! (a + 1) < int m \<and>
         cursors s1 ! a = int k + cursors s2 ! (a + 1)
       \<or> cursors s2 ! (a + 1) = int m \<and> int k + 1 \<le> cursors s2 ! a \<and>
         cursors s1 ! a = cursors s2 ! a + int m - 1))"

definition rel_before :: "nat \<Rightarrow> nat \<Rightarrow> nat \<Rightarrow> int \<Rightarrow> 'c state \<Rightarrow> 'c state \<Rightarrow> bool" where
  "rel_before a k m lo s1 s2 =
     (ctx s1 = ctx s2 \<and> length (cursors s1) = a + 1 \<and> length (cursors s2) = a + 1 \<and>
        lo \<le> cursors s1 ! a \<and> cursors s2 ! a = cursors s1 ! a \<and> cursors s1 ! a < int k
      \<or> rel_inner a k m (max lo (int k)) s1 s2)"

section \<open>Properties of the composer\<close>

lemma compose_functions: "compose (map Function fs) = Inr (pipeline fs)"
proof -
  have "functions_of (map Function fs) = Some fs" by (induction fs) simp_all
  then show ?thesis by (simp add: compose_def)
qed

subsection \<open>Basic facts about dispatch\<close>

lemma dispatch_apply:
  "dispatch middleware nxt a i s =
    (if i \<le> cursors s ! a then (Returns (Rejected multiple_times), s)
     else
       let s1 = s\<lparr>cursors := (cursors s)[a := i]\<rparr> in
       case select_fn middleware nxt i of
         None \<Rightarrow> (Returns Resolved, s1)
       | Some fn \<Rightarrow>
           (case fn (dispatch middleware nxt a (i + 1)) s1 of
              (Throws err, s2) \<Rightarrow> (Returns (Rejected err), s2)
            | (Returns out, s2) \<Rightarrow> (Returns out, s2)))"
  by (simp add: dispatch.simps [of middleware nxt a i])

lemma dispatch_guard:
  "i \<le> cursors s ! a \<Longrightarrow> dispatch middleware nxt a i s = (Returns (Rejected multiple_times), s)"
  by (simp add: dispatch.simps [of middleware nxt a i])

lemma dispatch_returns: "\<exists>out. fst (dispatch middleware nxt a i s) = Returns out"
  by (simp add: dispatch.simps [of middleware nxt a i] Let_def split: option.splits prod.splits completion.splits)

lemma dispatch_returns': "dispatch middleware nxt a i s \<noteq> (Throws e, s')"
  using dispatch_returns [of middleware nxt a i s] by auto

lemma wrap_returns:
  "(case dispatch hs nxt a i s of (Throws err, s2) \<Rightarrow> (Returns (Rejected err), s2)
      | (Returns out, s2) \<Rightarrow> (Returns out, s2)) = dispatch hs nxt a i s"
  using dispatch_returns [of hs nxt a i s]
  by (cases "dispatch hs nxt a i s") (auto split: completion.splits)

lemma select_fn_nat:
  "select_fn hs nxt (int n) =
     (if n < length hs then Some (hs ! n) else if n = length hs then nxt else None)"
  by (simp add: select_fn_def)

lemma select_fn_end: "select_fn hs nxt (int (length hs)) = nxt"
  by (simp add: select_fn_def)

lemma select_fn_at:
  "select_fn (hs @ h # rest) nxt (int (length hs)) = Some h"
  by (simp add: select_fn_def)

lemma select_fn_append_left:
  "j < length hs \<Longrightarrow> select_fn (hs @ rest) nxt (int j) = Some (hs ! j)"
  by (simp add: select_fn_def Let_def nth_append)

text \<open>
  Claim C9.  Invoking the composed pipeline never throws synchronously: whatever the
  handlers and the terminal continuation do, the call returns a promise.  A handler that
  throws synchronously makes the promise reject with what it threw, and a call of
  \<open>dispatch\<close> against the protocol returns a rejected promise as well.
\<close>

theorem pipeline_returns_promise:
  "(\<exists>out. fst (pipeline middleware nxt s) = Returns out) \<and>
   fst (pipeline (run (Throw e) # middleware) nxt s) = Returns (Rejected e) \<and>
   dispatch middleware nxt a (cursors s ! a) s =
     (Returns (Rejected (new_Error ''next() called multiple times'')), s)"
proof (intro conjI)
  show "\<exists>out. fst (pipeline middleware nxt s) = Returns out"
    unfolding pipeline_def Let_def by (rule dispatch_returns)
  show "fst (pipeline (run (Throw e) # middleware) nxt s) = Returns (Rejected e)"
    by (simp add: pipeline_def dispatch_apply [of _ _ _ 0] select_fn_def)
  show "dispatch middleware nxt a (cursors s ! a) s =
     (Returns (Rejected (new_Error ''next() called multiple times'')), s)"
    by (simp add: dispatch_guard multiple_times_def)
qed

subsection \<open>The cursor only grows\<close>

lemma run_preserves:
  assumes nx: "\<And>s r s'. P s \<Longrightarrow> next s = (r, s') \<Longrightarrow> P s'"
      and up: "\<And>s c. P s \<Longrightarrow> P (s\<lparr>ctx := c\<rparr>)"
  shows "P s \<Longrightarrow> run p next s = (r, s') \<Longrightarrow> P s'"
proof (induction p arbitrary: s)
  case (AwaitNext k)
  then show ?case
    by (auto split: prod.splits completion.splits dest: nx)
qed (auto intro: up)

lemma dispatch_mono:
  "at_least a k s \<Longrightarrow> dispatch (map run ps) (map_option run q) a i s = (r, s') \<Longrightarrow> at_least a k s'"
proof (induction "map run ps" "map_option run q" a i arbitrary: s r s' k rule: dispatch.induct)
  case (1 a i)
  show ?case
  proof (cases "i \<le> cursors s ! a")
    case True
    with 1(2,3) show ?thesis by (simp add: dispatch_guard)
  next
    case False
    let ?s1 = "s\<lparr>cursors := (cursors s)[a := i]\<rparr>"
    have s1: "at_least a k ?s1" using 1(2) False by (simp add: at_least_def)
    show ?thesis
    proof (cases "select_fn (map run ps) (map_option run q) i")
      case None
      with False 1(3) s1 show ?thesis
        by (simp add: dispatch.simps [of _ _ a i])
    next
      case (Some fn)
      then obtain p where fn: "fn = run p"
        by (auto simp: select_fn_def Let_def split: if_splits)
      obtain r2 s2 where r2: "run p (dispatch (map run ps) (map_option run q) a (i + 1)) ?s1 = (r2, s2)"
        by fastforce
      have "at_least a k s2"
      proof (rule run_preserves [where P = "at_least a k", OF _ _ s1 r2])
        fix t r t' assume "at_least a k t" "dispatch (map run ps) (map_option run q) a (i + 1) t = (r, t')"
        then show "at_least a k t'"
          using 1(1) [OF False refl Some] by blast
      qed (simp add: at_least_def)
      moreover have "s' = s2"
        using 1(3) False Some fn r2
        by (simp add: dispatch.simps [of _ _ a i] split: completion.splits)
      ultimately show ?thesis by simp
    qed
  qed
qed

lemma dispatch_reaches:
  assumes "a < length (cursors s)"
      and "dispatch (map run ps) (map_option run q) a i s = (r, s')"
  shows "at_least a i s'"
proof (cases "i \<le> cursors s ! a")
  case True
  with assms show ?thesis by (simp add: dispatch_guard at_least_def)
next
  case False
  let ?s1 = "s\<lparr>cursors := (cursors s)[a := i]\<rparr>"
  have s1: "at_least a i ?s1" using assms(1) by (simp add: at_least_def)
  show ?thesis
  proof (cases "select_fn (map run ps) (map_option run q) i")
    case None
    with False assms(2) s1 show ?thesis by (simp add: dispatch_apply)
  next
    case (Some fn)
    then obtain p where fn: "fn = run p"
      by (auto simp: select_fn_def Let_def split: if_splits)
    obtain r2 s2 where r2: "run p (dispatch (map run ps) (map_option run q) a (i + 1)) ?s1 = (r2, s2)"
      by fastforce
    have "at_least a i s2"
    proof (rule run_preserves [where P = "at_least a i", OF _ _ s1 r2])
      fix t r t' assume "at_least a i t" "dispatch (map run ps) (map_option run q) a (i + 1) t = (r, t')"
      then show "at_least a i t'" by (rule dispatch_mono)
    qed (simp add: at_least_def)
    moreover have "s' = s2"
      using assms(2) False Some fn r2
      by (simp add: dispatch_apply split: completion.splits)
    ultimately show ?thesis by simp
  qed
qed

subsection \<open>Handlers that await next once\<close>

lemma onion_apply:
  "onion_fn w next s =
     (case next (s\<lparr>ctx := fst w (ctx s)\<rparr>) of
        (Throws e, s') \<Rightarrow> (Throws e, s')
      | (Returns Resolved, s') \<Rightarrow> (Returns Resolved, s'\<lparr>ctx := snd w (ctx s')\<rparr>)
      | (Returns (Rejected e), s') \<Rightarrow> (Returns (Rejected e), s'))"
  by (simp add: onion_fn_def onion_def split: prod.splits completion.splits outcome.splits)

lemma dispatch_onions:
  assumes "a < length (cursors s)"
  shows "j \<le> length ws \<Longrightarrow> cursors s ! a = int j - 1 \<Longrightarrow>
    dispatch (map onion_fn ws @ rest) nxt a (int j) s =
      unwind (drop j ws)
        (dispatch (map onion_fn ws @ rest) nxt a (int (length ws))
           (s\<lparr>cursors := (cursors s)[a := int (length ws) - 1],
              ctx := fold fst (drop j ws) (ctx s)\<rparr>))"
  using assms
proof (induction "length ws - j" arbitrary: j s)
  case 0
  then have "j = length ws" by simp
  moreover have "(cursors s)[a := cursors s ! a] = cursors s" by simp
  ultimately show ?case using 0
    by (cases "dispatch (map onion_fn ws @ rest) nxt a (int (length ws)) s")
       (auto simp: unwind_def dispatch_returns' split: completion.splits outcome.splits)
next
  case (Suc n)
  then have j: "j < length ws" by simp
  let ?F = "map onion_fn ws @ rest"
  let ?s1 = "s\<lparr>cursors := (cursors s)[a := int j]\<rparr>"
  let ?s2 = "?s1\<lparr>ctx := fst (ws ! j) (ctx s)\<rparr>"
  have sel: "select_fn ?F nxt (int j) = Some (onion_fn (ws ! j))"
    using select_fn_append_left [of j "map onion_fn ws" rest nxt] j by simp
  have IH: "dispatch ?F nxt a (int (Suc j)) ?s2 =
      unwind (drop (Suc j) ws)
        (dispatch ?F nxt a (int (length ws))
           (?s2\<lparr>cursors := (cursors ?s2)[a := int (length ws) - 1],
              ctx := fold fst (drop (Suc j) ws) (ctx ?s2)\<rparr>))"
    using Suc(2) j Suc(5) by (intro Suc(1)) auto
  have d: "drop j ws = ws ! j # drop (Suc j) ws"
    using j by (simp add: Cons_nth_drop_Suc)
  have step: "dispatch ?F nxt a (int j) s =
      (case onion_fn (ws ! j) (dispatch ?F nxt a (int j + 1)) ?s1 of
              (Throws err, s2) \<Rightarrow> (Returns (Rejected err), s2)
            | (Returns out, s2) \<Rightarrow> (Returns out, s2))"
    using Suc(4) sel by (simp add: dispatch.simps [of ?F nxt a "int j"])
  have ij: "int j + 1 = int (Suc j)" by simp
  obtain r t where rt: "dispatch ?F nxt a (int (length ws))
           (s\<lparr>cursors := (cursors s)[a := int (length ws) - 1],
              ctx := fold fst (drop j ws) (ctx s)\<rparr>) = (r, t)"
    by fastforce
  obtain out where out: "r = Returns out"
    using dispatch_returns [of ?F nxt a "int (length ws)"] rt
    by (metis fst_conv)
  have inner: "dispatch ?F nxt a (int (Suc j)) ?s2 = unwind (drop (Suc j) ws) (r, t)"
    using IH rt by (simp add: d)
  show ?case
    unfolding step ij rt
    using inner out
    by (cases out) (simp_all add: onion_apply d unwind_def)
qed

lemma pipeline_onions:
  "pipeline (map onion_fn ws @ rest) nxt s =
     unwind ws
       (dispatch (map onion_fn ws @ rest) nxt (length (cursors s)) (int (length ws))
          (s\<lparr>cursors := cursors s @ [int (length ws) - 1], ctx := fold fst ws (ctx s)\<rparr>))"
proof -
  let ?s0 = "s\<lparr>cursors := cursors s @ [- 1]\<rparr>"
  have "dispatch (map onion_fn ws @ rest) nxt (length (cursors s)) (int 0) ?s0 =
      unwind (drop 0 ws)
        (dispatch (map onion_fn ws @ rest) nxt (length (cursors s)) (int (length ws))
           (?s0\<lparr>cursors := (cursors ?s0)[length (cursors s) := int (length ws) - 1],
              ctx := fold fst (drop 0 ws) (ctx ?s0)\<rparr>))"
    by (rule dispatch_onions) simp_all
  then show ?thesis by (simp add: pipeline_def)
qed

text \<open>
  Claim C1.  When every handler runs its code before, awaits \<open>next()\<close> once and then runs
  its code after, the composed pipeline resolves, and its effect on the context is: the
  code before of every handler, in sequence order, then the code after of every handler,
  in reverse order, each exactly once.  So handler \<open>i\<close>'s code before is complete when
  handler \<open>i + 1\<close> starts, and the whole of handler \<open>i + 1\<close> is complete when handler
  \<open>i\<close>'s code after resumes.
\<close>

theorem onion_order:
  "pipeline (map onion_fn ws) None s =
     (Returns Resolved,
      s\<lparr>cursors := cursors s @ [int (length ws)],
        ctx := fold snd (rev ws) (fold fst ws (ctx s))\<rparr>)"
proof -
  let ?s0 = "s\<lparr>cursors := cursors s @ [- 1]\<rparr>"
  have "dispatch (map onion_fn ws @ []) None (length (cursors s)) (int 0) ?s0 =
      unwind (drop 0 ws)
        (dispatch (map onion_fn ws @ []) None (length (cursors s)) (int (length ws))
           (?s0\<lparr>cursors := (cursors ?s0)[length (cursors s) := int (length ws) - 1],
              ctx := fold fst (drop 0 ws) (ctx ?s0)\<rparr>))"
    by (rule dispatch_onions) simp_all
  then show ?thesis
    using select_fn_end [of "map onion_fn ws" None]
    by (simp add: pipeline_def dispatch_apply [of _ _ _ "int (length ws)"] unwind_def)
qed

text \<open>
  Claim C1 at three logging handlers: the log reads before1, before2, before3, after3,
  after2, after1.
\<close>

theorem onion_order_witness:
  "pipeline (map onion_fn
       [(\<lambda>l. l @ [''before1''], \<lambda>l. l @ [''after1'']),
        (\<lambda>l. l @ [''before2''], \<lambda>l. l @ [''after2'']),
        (\<lambda>l. l @ [''before3''], \<lambda>l. l @ [''after3''])]) None \<lparr>cursors = [], ctx = []\<rparr> =
     (Returns Resolved,
      \<lparr>cursors = [3],
       ctx = [''before1'', ''before2'', ''before3'', ''after3'', ''after2'', ''after1'']\<rparr>)"
  using onion_order [of
       "[(\<lambda>l. l @ [''before1''], \<lambda>l. l @ [''after1'']),
        (\<lambda>l. l @ [''before2''], \<lambda>l. l @ [''after2'']),
        (\<lambda>l. l @ [''before3''], \<lambda>l. l @ [''after3''])]" "\<lparr>cursors = [], ctx = []\<rparr>"]
  by simp

subsection \<open>Handlers that await next twice\<close>

lemma twice_apply_first:
  assumes "next (s\<lparr>ctx := before (ctx s)\<rparr>) = (Returns Resolved, t)"
      and "next (t\<lparr>ctx := between (ctx t)\<rparr>) = (Returns (Rejected e), u)"
  shows "run (twice before between rest) next s = (Returns (Rejected e), u)"
  using assms by (simp add: twice_def)

text \<open>
  Claim C2, amended.  A call of a proceed callable whose index is at most the cursor
  returns a promise rejected with the error \<open>next() called multiple times\<close>, and changes
  nothing.  So when the handlers before index \<open>k\<close> each await \<open>next()\<close> once without catching,
  and the handler at index \<open>k\<close> awaits \<open>next()\<close>, which resolves, and then awaits it again,
  this second call is rejected with that error and, the handler not catching it, the
  invocation rejects with that error: whatever \<open>k\<close> is, and whatever the handlers after
  \<open>k\<close> and the terminal continuation are.
\<close>

theorem next_called_multiple_times:
  "(j \<le> cursors u ! a \<longrightarrow>
      dispatch middleware nxt a j u =
        (Returns (Rejected (new_Error ''next() called multiple times'')), u)) \<and>
   (dispatch (map onion_fn ws @ run (twice before between rest) # map run cs) (map_option run q)
        (length (cursors s)) (int (length ws) + 1)
        (s\<lparr>cursors := cursors s @ [int (length ws)], ctx := before (fold fst ws (ctx s))\<rparr>)
      = (Returns Resolved, t) \<longrightarrow>
    dispatch (map onion_fn ws @ run (twice before between rest) # map run cs) (map_option run q)
        (length (cursors s)) (int (length ws) + 1) (t\<lparr>ctx := between (ctx t)\<rparr>)
      = (Returns (Rejected (new_Error ''next() called multiple times'')), t\<lparr>ctx := between (ctx t)\<rparr>) \<and>
    pipeline (map onion_fn ws @ run (twice before between rest) # map run cs) (map_option run q) s
      = (Returns (Rejected (new_Error ''next() called multiple times'')), t\<lparr>ctx := between (ctx t)\<rparr>))"
proof (intro conjI impI)
  assume "j \<le> cursors u ! a"
  then show "dispatch middleware nxt a j u =
        (Returns (Rejected (new_Error ''next() called multiple times'')), u)"
    by (simp add: dispatch_guard multiple_times_def)
next
  let ?F = "map onion_fn ws @ run (twice before between rest) # map run cs"
  let ?q = "map_option run q"
  let ?a = "length (cursors s)"
  let ?k = "int (length ws)"
  let ?s1 = "s\<lparr>cursors := cursors s @ [?k], ctx := before (fold fst ws (ctx s))\<rparr>"
  let ?t' = "t\<lparr>ctx := between (ctx t)\<rparr>"
  assume first: "dispatch ?F ?q ?a (?k + 1) ?s1 = (Returns Resolved, t)"
  have F: "?F = map run (map (\<lambda>w. onion (fst w) (snd w)) ws @ twice before between rest # cs)"
    by (simp add: onion_fn_def comp_def)
  have "dispatch (map run (map (\<lambda>w. onion (fst w) (snd w)) ws @ twice before between rest # cs))
      ?q ?a (?k + 1) ?s1 = (Returns Resolved, t)"
    using first unfolding F .
  then have "at_least ?a (?k + 1) t"
    by (rule dispatch_reaches [rotated]) simp
  then have "at_least ?a (?k + 1) ?t'" by (simp add: at_least_def)
  then show second: "dispatch ?F ?q ?a (?k + 1) ?t' =
      (Returns (Rejected (new_Error ''next() called multiple times'')), ?t')"
    by (simp add: dispatch_guard at_least_def multiple_times_def)
  let ?sk = "s\<lparr>cursors := cursors s @ [?k - 1], ctx := fold fst ws (ctx s)\<rparr>"
  have sel: "select_fn ?F ?q ?k = Some (run (twice before between rest))"
    using select_fn_at [of "map onion_fn ws" _ "map run cs" ?q] by simp
  have "run (twice before between rest) (dispatch ?F ?q ?a (?k + 1))
          (?sk\<lparr>cursors := (cursors ?sk)[?a := ?k]\<rparr>)
        = (Returns (Rejected (new_Error ''next() called multiple times'')), ?t')"
    by (rule twice_apply_first [where t = t]) (use first second in simp_all)
  then have "dispatch ?F ?q ?a ?k ?sk =
      (Returns (Rejected (new_Error ''next() called multiple times'')), ?t')"
    by (simp add: dispatch_apply [of _ _ ?a ?k] sel)
  then show "pipeline ?F ?q s =
      (Returns (Rejected (new_Error ''next() called multiple times'')), ?t')"
    using pipeline_onions [of ws "run (twice before between rest) # map run cs" ?q s]
    by (simp add: unwind_def)
qed

text \<open>
  Claim C2, amended, at three handlers, the second of which awaits \<open>next()\<close> twice: the
  third handler runs once, the code between the two calls runs, and the invocation
  rejects.
\<close>

theorem next_called_multiple_times_witness:
  "dispatch (map onion_fn [logging ''1''] @ run (twice (\<lambda>log. log @ [''first'']) (\<lambda>log. log @ [''between'']) Resolve)
        # map run [Upd (\<lambda>log. log @ [''last'']) Resolve]) (map_option run None)
        (length (cursors \<lparr>cursors = [], ctx = []\<rparr>)) (int (length [logging ''1'']) + 1)
        (\<lparr>cursors = [], ctx = []\<rparr>\<lparr>cursors := cursors \<lparr>cursors = [], ctx = []\<rparr> @ [int (length [logging ''1''])],
            ctx := (\<lambda>log. log @ [''first'']) (fold fst [logging ''1''] (ctx \<lparr>cursors = [], ctx = []\<rparr>))\<rparr>)
      = (Returns Resolved, \<lparr>cursors = [2], ctx = [''before1'', ''first'', ''last'']\<rparr>) \<and>
   (2::int) \<le> cursors \<lparr>cursors = [2], ctx = [''before1'', ''first'', ''last'', ''between'']\<rparr> ! 0 \<and>
   dispatch (map onion_fn [logging ''1''] @ run (twice (\<lambda>log. log @ [''first'']) (\<lambda>log. log @ [''between'']) Resolve)
        # map run [Upd (\<lambda>log. log @ [''last'']) Resolve]) (map_option run None) 0 2
        \<lparr>cursors = [2], ctx = [''before1'', ''first'', ''last'', ''between'']\<rparr>
      = (Returns (Rejected (new_Error ''next() called multiple times'')),
         \<lparr>cursors = [2], ctx = [''before1'', ''first'', ''last'', ''between'']\<rparr>) \<and>
   pipeline (map onion_fn [logging ''1''] @ run (twice (\<lambda>log. log @ [''first'']) (\<lambda>log. log @ [''between'']) Resolve)
        # map run [Upd (\<lambda>log. log @ [''last'']) Resolve]) (map_option run None) \<lparr>cursors = [], ctx = []\<rparr>
      = (Returns (Rejected (new_Error ''next() called multiple times'')),
         \<lparr>cursors = [2], ctx = [''before1'', ''first'', ''last'', ''between'']\<rparr>)"
proof -
  have first: "dispatch (map onion_fn [logging ''1''] @ run (twice (\<lambda>log. log @ [''first'']) (\<lambda>log. log @ [''between'']) Resolve)
        # map run [Upd (\<lambda>log. log @ [''last'']) Resolve]) (map_option run None)
        (length (cursors \<lparr>cursors = [], ctx = []\<rparr>)) (int (length [logging ''1'']) + 1)
        (\<lparr>cursors = [], ctx = []\<rparr>\<lparr>cursors := cursors \<lparr>cursors = [], ctx = []\<rparr> @ [int (length [logging ''1''])],
            ctx := (\<lambda>log. log @ [''first'']) (fold fst [logging ''1''] (ctx \<lparr>cursors = [], ctx = []\<rparr>))\<rparr>)
      = (Returns Resolved, \<lparr>cursors = [2], ctx = [''before1'', ''first'', ''last'']\<rparr>)"
    by (simp add: dispatch_apply select_fn_def logging_def)
  have guard: "(2::int) \<le> cursors \<lparr>cursors = [2], ctx = [''before1'', ''first'', ''last'', ''between'']\<rparr> ! 0"
    by simp
  show ?thesis
    using first guard
      next_called_multiple_times [where j = 2
        and u = "\<lparr>cursors = [2], ctx = [''before1'', ''first'', ''last'', ''between'']\<rparr>" and a = 0
        and middleware = "map onion_fn [logging ''1''] @
            run (twice (\<lambda>log. log @ [''first'']) (\<lambda>log. log @ [''between'']) Resolve)
            # map run [Upd (\<lambda>log. log @ [''last'']) Resolve]"
        and nxt = "map_option run None"
        and ws = "[logging ''1'']" and before = "\<lambda>log. log @ [''first'']"
        and between = "\<lambda>log. log @ [''between'']" and rest = Resolve
        and cs = "[Upd (\<lambda>log. log @ [''last'']) Resolve]" and q = None
        and s = "\<lparr>cursors = [], ctx = []\<rparr>"
        and t = "\<lparr>cursors = [2], ctx = [''before1'', ''first'', ''last'']\<rparr>"]
    by simp
qed

text \<open>
  Claim C2 as stated fails: a handler that calls \<open>next()\<close> twice and catches the
  rejection of the second call (recorded in the context) lets the pipeline resolve.
\<close>

theorem next_called_multiple_times_counterexample:
  "pipeline [run next_twice_caught] None \<lparr>cursors = [], ctx = None\<rparr> =
     (Returns Resolved,
      \<lparr>cursors = [1], ctx = Some (Rejected (new_Error ''next() called multiple times''))\<rparr>)"
  by (simp add: pipeline_def dispatch_apply select_fn_def next_twice_caught_def multiple_times_def)

subsection \<open>Handlers that do not invoke next\<close>

lemma run_skip_eq:
  "skips_next p (ctx s) \<Longrightarrow> run p next s = run p next' s"
  by (induction p arbitrary: s) auto

lemma run_skip_resolves:
  "skips_next p (ctx s) \<Longrightarrow> \<exists>s'. run p next s = (Returns Resolved, s')"
  by (induction p arbitrary: s) auto

lemma dispatch_skip:
  assumes "skips_next p (ctx s)"
  shows "dispatch (hs @ run p # rest) nxt a (int (length hs)) s =
         dispatch (hs @ run p # rest') nxt' a (int (length hs)) s"
proof -
  let ?s1 = "s\<lparr>cursors := (cursors s)[a := int (length hs)]\<rparr>"
  have "skips_next p (ctx ?s1)" using assms by simp
  from run_skip_eq [OF this]
  have "run p (dispatch (hs @ run p # rest) nxt a (int (length hs) + 1)) ?s1 =
        run p (dispatch (hs @ run p # rest') nxt' a (int (length hs) + 1)) ?s1" .
  then show ?thesis
    by (simp add: dispatch_apply [of _ _ a "int (length hs)"] select_fn_at Let_def)
qed

lemma dispatch_skip_resolves:
  assumes "skips_next p (ctx s)" and "cursors s ! a < int (length hs)"
  shows "fst (dispatch (hs @ run p # rest) nxt a (int (length hs)) s) = Returns Resolved"
proof -
  let ?s1 = "s\<lparr>cursors := (cursors s)[a := int (length hs)]\<rparr>"
  have "skips_next p (ctx ?s1)" using assms by simp
  from run_skip_resolves [OF this]
  obtain t where "run p (dispatch (hs @ run p # rest) nxt a (int (length hs) + 1)) ?s1 = (Returns Resolved, t)"
    by blast
  then show ?thesis using assms(2)
    by (simp add: dispatch_apply [of _ _ a "int (length hs)"] select_fn_at Let_def)
qed

text \<open>
  Claim C5, amended.  When the handler at index \<open>k\<close>, dispatched with the context of this
  invocation, resolves without invoking \<open>next\<close>, that dispatch invokes no handler after
  \<open>k\<close> and no terminal continuation (it is the dispatch of the sequence cut after \<open>k\<close>,
  without terminal continuation), and it resolves.  The invocation as a whole is then the
  one of the cut sequence, and resolves, when the handlers before \<open>k\<close> each await \<open>next()\<close>
  once and then resolve.  For a handler that never invokes \<open>next\<close>, whatever the context,
  the invocation is the one of the cut sequence whatever the handlers before \<open>k\<close> are.
\<close>

theorem short_circuit:
  "(skips_next p (ctx s) \<longrightarrow>
      dispatch (hs @ run p # rest) nxt a (int (length hs)) s =
        dispatch (hs @ [run p]) None a (int (length hs)) s \<and>
      (cursors s ! a < int (length hs) \<longrightarrow>
         fst (dispatch (hs @ run p # rest) nxt a (int (length hs)) s) = Returns Resolved)) \<and>
   (skips_next p (fold fst ws (ctx s)) \<longrightarrow>
      pipeline (map onion_fn ws @ run p # rest) nxt s = pipeline (map onion_fn ws @ [run p]) None s \<and>
      fst (pipeline (map onion_fn ws @ run p # rest) nxt s) = Returns Resolved) \<and>
   ((\<forall>c. skips_next p c) \<longrightarrow>
      pipeline (hs @ run p # rest) nxt s = pipeline (hs @ [run p]) None s)"
proof (intro conjI impI)
  assume "skips_next p (ctx s)"
  then show "dispatch (hs @ run p # rest) nxt a (int (length hs)) s =
        dispatch (hs @ [run p]) None a (int (length hs)) s"
    by (rule dispatch_skip)
next
  assume "skips_next p (ctx s)" "cursors s ! a < int (length hs)"
  then show "fst (dispatch (hs @ run p # rest) nxt a (int (length hs)) s) = Returns Resolved"
    by (rule dispatch_skip_resolves)
next
  assume q: "skips_next p (fold fst ws (ctx s))"
  let ?sk = "s\<lparr>cursors := cursors s @ [int (length ws) - 1], ctx := fold fst ws (ctx s)\<rparr>"
  have sk: "skips_next p (ctx ?sk)" using q by simp
  have eq: "dispatch (map onion_fn ws @ run p # rest) nxt (length (cursors s)) (int (length (map onion_fn ws))) ?sk =
        dispatch (map onion_fn ws @ run p # []) None (length (cursors s)) (int (length (map onion_fn ws))) ?sk"
    by (rule dispatch_skip [OF sk])
  show pl: "pipeline (map onion_fn ws @ run p # rest) nxt s = pipeline (map onion_fn ws @ [run p]) None s"
    using eq by (simp add: pipeline_onions)
  have "fst (dispatch (map onion_fn ws @ run p # rest) nxt (length (cursors s)) (int (length (map onion_fn ws))) ?sk)
      = Returns Resolved"
    by (rule dispatch_skip_resolves [OF sk]) simp
  then show "fst (pipeline (map onion_fn ws @ run p # rest) nxt s) = Returns Resolved"
    by (cases "dispatch (map onion_fn ws @ run p # rest) nxt (length (cursors s)) (int (length ws)) ?sk")
       (simp add: pipeline_onions unwind_def)
next
  assume all: "\<forall>c. skips_next p c"
  have "dispatch (hs @ run p # rest) nxt a (int j) = dispatch (hs @ run p # []) None a (int j)"
    if "j \<le> length hs" for j a
    using that
  proof (induction "length hs - j" arbitrary: j)
    case 0
    then have j: "j = length hs" by simp
    show ?case unfolding j using all by (intro ext dispatch_skip) simp
  next
    case (Suc n)
    then have j: "j < length hs" by simp
    have IH: "dispatch (hs @ run p # rest) nxt a (int j + 1) = dispatch (hs @ run p # []) None a (int j + 1)"
      using Suc(1) [of "Suc j"] Suc(2) j by (simp add: add.commute)
    show ?case
    proof
      fix u
      show "dispatch (hs @ run p # rest) nxt a (int j) u = dispatch (hs @ run p # []) None a (int j) u"
        using j by (simp add: dispatch_apply [of _ _ a "int j"] select_fn_append_left IH)
    qed
  qed
  from this [of 0] show "pipeline (hs @ run p # rest) nxt s = pipeline (hs @ [run p]) None s"
    by (simp add: pipeline_def)
qed

text \<open>
  Claim C5, amended, at a handler that answers preflight requests only: after a handler
  that notes the method OPTIONS, it answers and the fourth handler never runs.
\<close>

theorem short_circuit_witness:
  "skips_next preflight (fold fst [logging ''1'', (\<lambda>log. log @ [''OPTIONS''], \<lambda>log. log @ [''after2''])] []) \<and>
   \<not> skips_next preflight [] \<and>
   pipeline (map onion_fn [logging ''1'', (\<lambda>log. log @ [''OPTIONS''], \<lambda>log. log @ [''after2''])]
             @ run preflight # [onion_fn (logging ''4'')]) None \<lparr>cursors = [], ctx = []\<rparr>
    = (Returns Resolved,
       \<lparr>cursors = [2], ctx = [''before1'', ''OPTIONS'', ''204'', ''after2'', ''after1'']\<rparr>) \<and>
   dispatch ([] @ run preflight # [onion_fn (logging ''4'')]) None 0 (int (length ([] :: string list handler list)))
       \<lparr>cursors = [- 1], ctx = [''OPTIONS'']\<rparr>
    = (Returns Resolved, \<lparr>cursors = [0], ctx = [''OPTIONS'', ''204'']\<rparr>) \<and>
   pipeline ([onion_fn (logging ''1'')] @ run (Upd (\<lambda>log. log @ [''early'']) Resolve) # [onion_fn (logging ''3'')])
       None \<lparr>cursors = [], ctx = []\<rparr>
    = (Returns Resolved, \<lparr>cursors = [1], ctx = [''before1'', ''early'', ''after1'']\<rparr>)"
proof -
  have h1: "skips_next preflight
      (fold fst [logging ''1'', (\<lambda>log. log @ [''OPTIONS''], \<lambda>log. log @ [''after2''])]
         (ctx \<lparr>cursors = [], ctx = []\<rparr>))"
    by (simp add: preflight_def logging_def)
  have h2: "skips_next preflight (ctx \<lparr>cursors = [- 1], ctx = [''OPTIONS'']\<rparr>)"
    by (simp add: preflight_def)
  have h3: "\<forall>c. skips_next (Upd (\<lambda>log. log @ [''early'']) Resolve) (c :: string list)"
    by simp
  show ?thesis
    using h1 h2 h3
      short_circuit [where p = preflight and s = "\<lparr>cursors = [], ctx = []\<rparr>" and hs = "[]"
        and rest = "[onion_fn (logging ''4'')]" and nxt = None and a = 0
        and ws = "[logging ''1'', (\<lambda>log. log @ [''OPTIONS''], \<lambda>log. log @ [''after2''])]"]
      short_circuit [where p = preflight and s = "\<lparr>cursors = [- 1], ctx = [''OPTIONS'']\<rparr>" and hs = "[]"
        and rest = "[onion_fn (logging ''4'')]" and nxt = None and a = 0 and ws = "[]"]
      short_circuit [where p = "Upd (\<lambda>log. log @ [''early'']) Resolve" and s = "\<lparr>cursors = [], ctx = []\<rparr>"
        and hs = "[onion_fn (logging ''1'')]" and rest = "[onion_fn (logging ''3'')]" and nxt = None
        and a = 0 and ws = "[]"]
    by (simp add: pipeline_def dispatch_apply select_fn_def onion_apply logging_def preflight_def)
qed

text \<open>
  Claim C5 as stated fails: the second handler resolves without invoking \<open>next\<close>, but
  the first one rejects after awaiting it, and so does the invocation.
\<close>

theorem short_circuit_counterexample:
  "skips_next (Resolve :: unit prog) () \<and>
   fst (pipeline [run fails_after_next, run Resolve] None \<lparr>cursors = [], ctx = ()\<rparr>)
     = Returns (Rejected (new_Error ''boom''))"
  by (simp add: pipeline_def dispatch_apply select_fn_def fails_after_next_def)

subsection \<open>Nested composition\<close>

lemma run_sim:
  assumes nx: "\<And>s1 s2. R s1 s2 \<Longrightarrow> same_result R (next1 s1) (next2 s2)"
      and up: "\<And>s1 s2 f. R s1 s2 \<Longrightarrow> R (s1\<lparr>ctx := f (ctx s1)\<rparr>) (s2\<lparr>ctx := f (ctx s2)\<rparr>)"
      and cx: "\<And>s1 s2. R s1 s2 \<Longrightarrow> ctx s1 = ctx s2"
  shows "R s1 s2 \<Longrightarrow> same_result R (run p next1 s1) (run p next2 s2)"
proof (induction p arbitrary: s1 s2)
  case (AwaitNext k)
  obtain r t1 where n1: "next1 s1 = (r, t1)" by fastforce
  obtain t2 where n2: "next2 s2 = (r, t2)" and R: "R t1 t2"
    using nx [OF AwaitNext(2)] n1 by (cases "next2 s2") (simp add: same_result_def)
  show ?case
  proof (cases r)
    case (Throws e)
    with n1 n2 R show ?thesis by (simp add: same_result_def)
  next
    case (Returns out)
    with n1 n2 AwaitNext(1) [OF _ R] show ?thesis by simp
  qed
next
  case (Read k)
  then show ?case using cx [OF Read(2)] by simp
next
  case (Upd f p)
  then show ?case using up by simp
qed (simp_all add: same_result_def)

lemma same_result_wrap:
  "same_result R x y \<Longrightarrow>
   same_result R (case x of (Throws err, s2) \<Rightarrow> (Returns (Rejected err), s2) | (Returns out, s2) \<Rightarrow> (Returns out, s2))
                 (case y of (Throws err, s2) \<Rightarrow> (Returns (Rejected err), s2) | (Returns out, s2) \<Rightarrow> (Returns out, s2))"
  by (cases x; cases y) (auto simp: same_result_def split: completion.splits)

lemma sim_step:
  assumes rej: "i \<le> cursors s1 ! a1 \<Longrightarrow> i' \<le> cursors s2 ! a2 \<and> R0 s1 s2"
      and pass: "\<not> i \<le> cursors s1 ! a1 \<Longrightarrow>
                   \<not> i' \<le> cursors s2 ! a2 \<and>
                   R (s1\<lparr>cursors := (cursors s1)[a1 := i]\<rparr>) (s2\<lparr>cursors := (cursors s2)[a2 := i']\<rparr>)"
      and sel: "select_fn N q2 i' = select_fn F q1 i"
      and prog: "\<And>fn. select_fn F q1 i = Some fn \<Longrightarrow> \<exists>p. fn = run p"
      and nx: "\<And>u1 u2. select_fn F q1 i \<noteq> None \<Longrightarrow> R u1 u2 \<Longrightarrow>
                 same_result R (dispatch F q1 a1 (i + 1) u1) (dispatch N q2 a2 (i' + 1) u2)"
      and up: "\<And>u1 u2 f. R u1 u2 \<Longrightarrow> R (u1\<lparr>ctx := f (ctx u1)\<rparr>) (u2\<lparr>ctx := f (ctx u2)\<rparr>)"
      and cx: "\<And>u1 u2. R u1 u2 \<Longrightarrow> ctx u1 = ctx u2"
      and weak: "\<And>u1 u2. R u1 u2 \<Longrightarrow> R0 u1 u2"
  shows "same_result R0 (dispatch F q1 a1 i s1) (dispatch N q2 a2 i' s2)"
proof (cases "i \<le> cursors s1 ! a1")
  case True
  with rej show ?thesis
    by (simp add: dispatch_apply [of _ _ _ i] dispatch_apply [of _ _ _ i'] same_result_def)
next
  case False
  let ?t1 = "s1\<lparr>cursors := (cursors s1)[a1 := i]\<rparr>"
  let ?t2 = "s2\<lparr>cursors := (cursors s2)[a2 := i']\<rparr>"
  from pass [OF False] have F': "\<not> i' \<le> cursors s2 ! a2" and R: "R ?t1 ?t2" by simp_all
  show ?thesis
  proof (cases "select_fn F q1 i")
    case None
    then show ?thesis using False F' weak [OF R] sel
      by (simp add: dispatch_apply [of _ _ _ i] dispatch_apply [of _ _ _ i'] same_result_def)
  next
    case (Some fn)
    then obtain p where p: "fn = run p" using prog by blast
    have "same_result R (run p (dispatch F q1 a1 (i + 1)) ?t1) (run p (dispatch N q2 a2 (i' + 1)) ?t2)"
      by (rule run_sim [where R = R, OF nx up cx R]) (simp add: Some)
    then have "same_result R0 (run p (dispatch F q1 a1 (i + 1)) ?t1) (run p (dispatch N q2 a2 (i' + 1)) ?t2)"
      using weak by (simp add: same_result_def)
    from same_result_wrap [OF this] show ?thesis using False F' Some p sel
      by (simp add: dispatch_apply [of _ _ _ i] dispatch_apply [of _ _ _ i'])
  qed
qed

lemma select_flat_after:
  "i = int (length as + length bs + j) \<Longrightarrow> select_fn (flat as bs cs) nxt i =
     (if j < length cs then Some (run (cs ! j)) else if j = length cs then nxt else None)"
  by (simp only: select_fn_nat) (auto simp: flat_def nth_append)

lemma select_nested_after:
  "i = int (length as + 1 + j) \<Longrightarrow> select_fn (nested as bs cs) nxt i =
     (if j < length cs then Some (run (cs ! j)) else if j = length cs then nxt else None)"
  by (simp only: select_fn_nat) (auto simp: nested_def nth_append)

lemma sim_after:
  assumes "i = int (length as + length bs + j)" and "i' = int (length as + 1 + j)"
      and "rel_after a (length as) (length bs) (i - 1) s1 s2"
  shows "same_result (rel_after a (length as) (length bs) i)
     (dispatch (flat as bs cs) (map_option run q) a i s1)
     (dispatch (nested as bs cs) (map_option run q) a i' s2)"
  using assms
proof (induction "Suc (length cs) - j" arbitrary: j i i' s1 s2)
  case 0
  then have j: "j > length cs" by simp
  have ii: "i = i' + int (length bs) - 1" using 0(2,3) by simp
  have ik: "int (length as) < i'" using 0(3) by simp
  have sel: "select_fn (flat as bs cs) (map_option run q) i = None"
    using j select_flat_after [OF 0(2), of cs "map_option run q"] by simp
  show ?case
  proof (rule sim_step [where R = "rel_after a (length as) (length bs) i"])
    show "select_fn (nested as bs cs) (map_option run q) i' = select_fn (flat as bs cs) (map_option run q) i"
      using select_flat_after [OF 0(2)] select_nested_after [OF 0(3)] by simp
  qed (use 0(4) ii ik sel in \<open>auto simp: rel_after_def\<close>)
next
  case (Suc d)
  have ii: "i = i' + int (length bs) - 1" using Suc(3,4) by simp
  have ik: "int (length as) < i'" using Suc(4) by simp
  show ?case
  proof (rule sim_step [where R = "rel_after a (length as) (length bs) i"])
    show "select_fn (nested as bs cs) (map_option run q) i' = select_fn (flat as bs cs) (map_option run q) i"
      using select_flat_after [OF Suc(3)] select_nested_after [OF Suc(4)] by simp
    show "\<exists>p. fn = run p" if "select_fn (flat as bs cs) (map_option run q) i = Some fn" for fn
      using that select_flat_after [OF Suc(3), of cs "map_option run q"]
      by (cases q) (auto split: if_splits)
    show "same_result (rel_after a (length as) (length bs) i)
        (dispatch (flat as bs cs) (map_option run q) a (i + 1) u1)
        (dispatch (nested as bs cs) (map_option run q) a (i' + 1) u2)"
      if "rel_after a (length as) (length bs) i u1 u2" for u1 u2
    proof -
      have "same_result (rel_after a (length as) (length bs) (i + 1))
        (dispatch (flat as bs cs) (map_option run q) a (i + 1) u1)
        (dispatch (nested as bs cs) (map_option run q) a (i' + 1) u2)"
        using Suc(2,3,4) that by (intro Suc(1) [of "Suc j"]) simp_all
      then show ?thesis by (simp add: same_result_def rel_after_def)
    qed
  qed (use Suc(5) ii ik in \<open>auto simp: rel_after_def\<close>)
qed

lemma select_flat_inner:
  "i = int (length as + j) \<Longrightarrow> j < length bs \<Longrightarrow>
     select_fn (flat as bs cs) nxt i = Some (run (bs ! j))"
  by (simp only: select_fn_nat) (auto simp: flat_def nth_append)

lemma select_inner:
  "i = int j \<Longrightarrow> j < length bs \<Longrightarrow> select_fn (map run bs) nxt i = Some (run (bs ! j))"
  by (simp only: select_fn_nat) auto

lemma select_inner_end:
  "i = int (length bs) \<Longrightarrow> select_fn (map run bs) nxt i = nxt"
  by (simp add: select_fn_def)

lemma sim_inner:
  assumes "i = int (length as + j)" and "i' = int j" and "j \<le> length bs"
      and "rel_inner a (length as) (length bs) (i - 1) s1 s2"
  shows "same_result (rel_inner a (length as) (length bs) i)
     (dispatch (flat as bs cs) (map_option run q) a i s1)
     (dispatch (map run bs) (handover as bs cs (map_option run q) a) (a + 1) i' s2)"
  using assms
proof (induction "length bs - j" arbitrary: j i i' s1 s2)
  case 0
  then have j: "j = length bs" by simp
  have ii: "i = int (length as) + i'" and i': "i' = int (length bs)" using 0(2,3) j by simp_all
  show ?case
  proof (cases "i \<le> cursors s1 ! a")
    case True
    then have "i' \<le> cursors s2 ! (a + 1)" and "rel_inner a (length as) (length bs) i s1 s2"
      using 0(5) ii i' by (auto simp: rel_inner_def)
    with True show ?thesis
      by (simp add: dispatch_apply [of _ _ _ i] dispatch_apply [of _ _ _ i'] same_result_def)
  next
    case False
    let ?t2 = "s2\<lparr>cursors := (cursors s2)[a + 1 := i']\<rparr>"
    have F': "\<not> i' \<le> cursors s2 ! (a + 1)"
      using 0(5) False ii i' by (auto simp: rel_inner_def)
    have "rel_after a (length as) (length bs) (i - 1) s1 ?t2"
      using 0(5) False ii i' by (auto simp: rel_inner_def rel_after_def)
    then have "same_result (rel_after a (length as) (length bs) i)
       (dispatch (flat as bs cs) (map_option run q) a i s1)
       (dispatch (nested as bs cs) (map_option run q) a (int (length as) + 1) ?t2)"
      using ii i' by (intro sim_after [where j = 0]) simp_all
    then have "same_result (rel_inner a (length as) (length bs) i)
       (dispatch (flat as bs cs) (map_option run q) a i s1)
       (dispatch (nested as bs cs) (map_option run q) a (int (length as) + 1) ?t2)"
      using ii i' by (auto simp: same_result_def rel_after_def rel_inner_def)
    moreover have "dispatch (map run bs) (handover as bs cs (map_option run q) a) (a + 1) i' s2 =
        dispatch (nested as bs cs) (map_option run q) a (int (length as) + 1) ?t2"
      using F' select_inner_end [OF i', of "handover as bs cs (map_option run q) a"]
      by (simp add: dispatch_apply [of _ _ _ i'] handover_def wrap_returns)
    ultimately show ?thesis by simp
  qed
next
  case (Suc d)
  then have j: "j < length bs" by simp
  have ii: "i = int (length as) + i'" using Suc(3,4) by simp
  have i': "0 \<le> i'" "i' < int (length bs)" using Suc(4) j by simp_all
  show ?case
  proof (rule sim_step [where R = "rel_inner a (length as) (length bs) i"])
    show "select_fn (map run bs) (handover as bs cs (map_option run q) a) i' =
          select_fn (flat as bs cs) (map_option run q) i"
      using select_flat_inner [OF Suc(3) j] select_inner [OF Suc(4) j] by simp
    show "\<exists>p. fn = run p" if "select_fn (flat as bs cs) (map_option run q) i = Some fn" for fn
      using that select_flat_inner [OF Suc(3) j, of cs "map_option run q"] by auto
    show "same_result (rel_inner a (length as) (length bs) i)
        (dispatch (flat as bs cs) (map_option run q) a (i + 1) u1)
        (dispatch (map run bs) (handover as bs cs (map_option run q) a) (a + 1) (i' + 1) u2)"
      if "rel_inner a (length as) (length bs) i u1 u2" for u1 u2
    proof -
      have "same_result (rel_inner a (length as) (length bs) (i + 1))
        (dispatch (flat as bs cs) (map_option run q) a (i + 1) u1)
        (dispatch (map run bs) (handover as bs cs (map_option run q) a) (a + 1) (i' + 1) u2)"
        using Suc(2,3,4) j that by (intro Suc(1) [of "Suc j"]) simp_all
      then show ?thesis by (simp add: same_result_def rel_inner_def)
    qed
  qed (use Suc(6) ii i' in \<open>auto simp: rel_inner_def\<close>)
qed

lemma select_flat_before:
  "i = int j \<Longrightarrow> j < length as \<Longrightarrow> select_fn (flat as bs cs) nxt i = Some (run (as ! j))"
  by (simp only: select_fn_nat) (auto simp: flat_def nth_append)

lemma select_nested_before:
  "i = int j \<Longrightarrow> j < length as \<Longrightarrow> select_fn (nested as bs cs) nxt i = Some (run (as ! j))"
  by (simp only: select_fn_nat) (auto simp: nested_def nth_append)

lemma select_nested_at:
  "i = int (length as) \<Longrightarrow>
     select_fn (nested as bs cs) nxt i = Some (as_middleware (map run bs))"
  by (simp only: select_fn_nat) (auto simp: nested_def nth_append)

lemma sim_before:
  assumes "i = int j" and "j \<le> length as"
      and "rel_before a (length as) (length bs) (i - 1) s1 s2"
  shows "same_result (rel_before a (length as) (length bs) i)
     (dispatch (flat as bs cs) (map_option run q) a i s1)
     (dispatch (nested as bs cs) (map_option run q) a i s2)"
  using assms
proof (induction "length as - j" arbitrary: j i s1 s2)
  case 0
  then have i: "i = int (length as)" by simp
  show ?case
  proof (cases "i \<le> cursors s1 ! a")
    case True
    then have "i \<le> cursors s2 ! a" and "rel_before a (length as) (length bs) i s1 s2"
      using 0(4) i by (auto simp: rel_before_def rel_inner_def)
    with True show ?thesis
      by (simp add: dispatch_apply [of _ _ _ i] same_result_def)
  next
    case False
    let ?t2 = "s2\<lparr>cursors := (cursors s2)[a := i] @ [- 1]\<rparr>"
    have pre: "ctx s1 = ctx s2" "length (cursors s1) = a + 1" "length (cursors s2) = a + 1"
        "cursors s2 ! a = cursors s1 ! a" "i - 1 \<le> cursors s1 ! a"
      using 0(4) False i by (auto simp: rel_before_def rel_inner_def)
    have F': "\<not> i \<le> cursors s2 ! a" using pre False by simp
    have "rel_inner a (length as) (length bs) (i - 1) s1 ?t2"
      using pre False i by (auto simp: rel_inner_def nth_append)
    then have "same_result (rel_inner a (length as) (length bs) i)
       (dispatch (flat as bs cs) (map_option run q) a i s1)
       (dispatch (map run bs) (handover as bs cs (map_option run q) a) (a + 1) 0 ?t2)"
      using i by (intro sim_inner [where j = 0]) simp_all
    then have "same_result (rel_before a (length as) (length bs) i)
       (dispatch (flat as bs cs) (map_option run q) a i s1)
       (dispatch (map run bs) (handover as bs cs (map_option run q) a) (a + 1) 0 ?t2)"
      using i by (auto simp: same_result_def rel_before_def rel_inner_def)
    moreover have "dispatch (nested as bs cs) (map_option run q) a i s2 =
        dispatch (map run bs) (handover as bs cs (map_option run q) a) (a + 1) 0 ?t2"
    proof -
      have sel: "select_fn (nested as bs cs) (map_option run q) (int (length as)) =
          Some (as_middleware (map run bs))"
        by (rule select_nested_at) simp
      have "dispatch (nested as bs cs) (map_option run q) a (int (length as)) s2 =
        dispatch (map run bs) (handover as bs cs (map_option run q) a) (a + 1) 0
          (s2\<lparr>cursors := (cursors s2)[a := int (length as)] @ [- 1]\<rparr>)"
        using F' pre(3) unfolding i
        by (simp add: dispatch_apply [of "nested as bs cs" _ a "int (length as)"] sel
              as_middleware_def pipeline_def handover_def wrap_returns)
      then show ?thesis by (simp add: i)
    qed
    ultimately show ?thesis by simp
  qed
next
  case (Suc d)
  then have j: "j < length as" by simp
  have i: "i < int (length as)" using Suc(3) j by simp
  show ?case
  proof (rule sim_step [where R = "rel_before a (length as) (length bs) i"])
    show "select_fn (nested as bs cs) (map_option run q) i =
          select_fn (flat as bs cs) (map_option run q) i"
      using select_flat_before [OF Suc(3) j] select_nested_before [OF Suc(3) j] by simp
    show "\<exists>p. fn = run p" if "select_fn (flat as bs cs) (map_option run q) i = Some fn" for fn
      using that select_flat_before [OF Suc(3) j, of bs cs "map_option run q"] by auto
    show "same_result (rel_before a (length as) (length bs) i)
        (dispatch (flat as bs cs) (map_option run q) a (i + 1) u1)
        (dispatch (nested as bs cs) (map_option run q) a (i + 1) u2)"
      if "rel_before a (length as) (length bs) i u1 u2" for u1 u2
    proof -
      have "same_result (rel_before a (length as) (length bs) (i + 1))
        (dispatch (flat as bs cs) (map_option run q) a (i + 1) u1)
        (dispatch (nested as bs cs) (map_option run q) a (i + 1) u2)"
        using Suc(2,3) j that by (intro Suc(1) [of "Suc j"]) simp_all
      then show ?thesis by (auto simp: same_result_def rel_before_def rel_inner_def)
    qed
  qed (use Suc(5) i in \<open>auto simp: rel_before_def rel_inner_def\<close>)
qed

text \<open>
  Claim C4.  A list in which the composed pipeline of the handlers \<open>bs\<close> stands as one
  handler between the handlers \<open>as\<close> and \<open>cs\<close> behaves as the flat list of all the
  handlers: from the same state, with the same terminal continuation, both invocations
  settle in the same way and leave the same context (so the handlers ran in the same
  order, each handler being free to record its run in the context).
\<close>

theorem nested_equals_flattened:
  "fst (pipeline (map run as @ as_middleware (map run bs) # map run cs) (map_option run q) s) =
     fst (pipeline (map run (as @ bs @ cs)) (map_option run q) s) \<and>
   ctx (snd (pipeline (map run as @ as_middleware (map run bs) # map run cs) (map_option run q) s)) =
     ctx (snd (pipeline (map run (as @ bs @ cs)) (map_option run q) s))"
proof -
  let ?s0 = "s\<lparr>cursors := cursors s @ [- 1]\<rparr>"
  have "rel_before (length (cursors s)) (length as) (length bs) (0 - 1) ?s0 ?s0"
    by (simp add: rel_before_def)
  then have "same_result (rel_before (length (cursors s)) (length as) (length bs) 0)
     (dispatch (flat as bs cs) (map_option run q) (length (cursors s)) 0 ?s0)
     (dispatch (nested as bs cs) (map_option run q) (length (cursors s)) 0 ?s0)"
    by (intro sim_before [where j = 0]) simp_all
  then show ?thesis
    by (auto simp: same_result_def pipeline_def flat_def nested_def rel_before_def rel_inner_def)
qed

text \<open>
  Claim C4 at four logging handlers, the second and third composed on their own.
\<close>

theorem nested_equals_flattened_witness:
  "pipeline (map run [onion (fst (logging ''1'')) (snd (logging ''1''))] @
       as_middleware (map run [onion (fst (logging ''2'')) (snd (logging ''2'')),
                                onion (fst (logging ''3'')) (snd (logging ''3''))]) #
       map run [onion (fst (logging ''4'')) (snd (logging ''4''))])
     (map_option run None) \<lparr>cursors = [], ctx = []\<rparr> =
   (Returns Resolved,
    \<lparr>cursors = [3, 2],
     ctx = [''before1'', ''before2'', ''before3'', ''before4'',
            ''after4'', ''after3'', ''after2'', ''after1'']\<rparr>) \<and>
   pipeline (map run ([onion (fst (logging ''1'')) (snd (logging ''1''))] @
       [onion (fst (logging ''2'')) (snd (logging ''2'')),
        onion (fst (logging ''3'')) (snd (logging ''3''))] @
       [onion (fst (logging ''4'')) (snd (logging ''4''))]))
     (map_option run None) \<lparr>cursors = [], ctx = []\<rparr> =
   (Returns Resolved,
    \<lparr>cursors = [4],
     ctx = [''before1'', ''before2'', ''before3'', ''before4'',
            ''after4'', ''after3'', ''after2'', ''after1'']\<rparr>)"
  using nested_equals_flattened [of "[onion (fst (logging ''1'')) (snd (logging ''1''))]"
      "[onion (fst (logging ''2'')) (snd (logging ''2'')),
        onion (fst (logging ''3'')) (snd (logging ''3''))]"
      "[onion (fst (logging ''4'')) (snd (logging ''4''))]" None "\<lparr>cursors = [], ctx = []\<rparr>"]
  by (simp add: pipeline_def as_middleware_def dispatch_apply select_fn_def onion_def logging_def)

section \<open>Properties of the application\<close>

lemma the_int_Safe [simp]:
  "- 9007199254740991 \<le> n \<Longrightarrow> n \<le> 9007199254740991 \<Longrightarrow> the_int (Safe n) = n"
  by (simp add: Safe_inverse)

lemma own_property_order_single [simp]: "own_property_order [kv] = [kv]"
  by (simp add: own_property_order_def)

lemma isJSON_BVal: "isJSON b \<Longrightarrow> \<exists>v. b = BVal v \<and> truthy v"
  by (cases b rule: isJSON.cases) simp_all

lemma stringify_defined: "truthy v \<Longrightarrow> JSON_stringify v \<noteq> Inr None"
  by (cases v) (simp_all split: sum.splits)

text \<open>
  Three evaluations: object keys that are array indices come first in a serialization; a
  context without body and with status 404 is answered with the reason phrase; the
  error handler prints the stack of an error, indented, between two empty lines.
\<close>

lemma stringify_key_order:
  "JSON_stringify (Obj [(''b'', Num (Safe 1)), (''1'', Num (Safe 2))]) =
     Inr (Some (CHR ''{'' # CHR 0x22 # CHR ''1'' # CHR 0x22 # '':2,'' @
                CHR 0x22 # CHR ''b'' # CHR 0x22 # '':1}''))"
  by (simp add: own_property_order_def is_array_index_def digits_value_def quote_def
        escape_char_def String_of_def digits.simps)

lemma respond_not_found:
  "respond no_body_codes (fresh_context\<lparr>status := Safe 404\<rparr>) =
     Inr (fresh_context\<lparr>status := Safe 404, ctype := Some ''text'', clength := Some 9,
            ended := True, payload := ''Not Found''\<rparr>)"
  by (simp add: respond_def fresh_context_def no_body_codes_def reason_phrase_def res_end_def)

lemma onerror_prints_stack:
  "onerror \<lparr>silent = Undefined\<rparr> (new_Error ''boom'') [] = Inr [[], ''  Error: boom'', []]"
  by (simp add: onerror_def new_Error_def new_error_def error_header_def indent_def)

text \<open>
  Claim C6.  For a context that is not bypassed and whose transport is writable, with a
  body-forbidden status code, \<open>respond\<close> sets the body to \<open>null\<close> and ends the response
  without writing any payload byte, whatever the body was.
\<close>

theorem respond_empty_status:
  assumes "respond_flag c \<noteq> Bool False" and "writable c" and "statuses_empty (status c)"
  shows "\<exists>c'. respond statuses_empty c = Inr c' \<and>
           body c' = BVal Null \<and> ended c' \<and> payload c' = payload c"
  using assms by (simp add: respond_def res_end_def)

text \<open>
  Claim C6 at status 204 with a text body.
\<close>

theorem respond_empty_status_witness:
  "respond_flag (fresh_context\<lparr>status := Safe 204, body := BVal (Str ''hello'')\<rparr>) \<noteq> Bool False \<and>
   writable (fresh_context\<lparr>status := Safe 204, body := BVal (Str ''hello'')\<rparr>) \<and>
   no_body_codes (status (fresh_context\<lparr>status := Safe 204, body := BVal (Str ''hello'')\<rparr>)) \<and>
   (\<exists>c'. respond no_body_codes (fresh_context\<lparr>status := Safe 204, body := BVal (Str ''hello'')\<rparr>) = Inr c' \<and>
      body c' = BVal Null \<and> ended c' \<and>
      payload c' = payload (fresh_context\<lparr>status := Safe 204, body := BVal (Str ''hello'')\<rparr>))"
proof -
  have h1: "respond_flag (fresh_context\<lparr>status := Safe 204, body := BVal (Str ''hello'')\<rparr>) \<noteq> Bool False"
    by (simp add: fresh_context_def)
  have h2: "writable (fresh_context\<lparr>status := Safe 204, body := BVal (Str ''hello'')\<rparr>)"
    by (simp add: fresh_context_def)
  have h3: "no_body_codes (status (fresh_context\<lparr>status := Safe 204, body := BVal (Str ''hello'')\<rparr>))"
    by (simp add: no_body_codes_def)
  show ?thesis
    using h1 h2 h3
      respond_empty_status [of "fresh_context\<lparr>status := Safe 204, body := BVal (Str ''hello'')\<rparr>"
        no_body_codes, OF h1 h2 h3]
    by blast
qed

text \<open>
  Claim C7, amended.  For a context that is not bypassed and whose transport is writable,
  with method HEAD and a status that is not body-forbidden, \<open>respond\<close> writes no payload
  byte.  When headers are already sent or the body is not JSON-serializable, it ends the
  response and leaves the content-length alone.  When headers are not sent and the body
  is JSON-serializable, it serializes the body first: if that gives the text \<open>json\<close>, it
  sets the content-length to the byte length of \<open>json\<close> and ends the response; if that
  throws, \<open>respond\<close> throws the same and the response is not ended.  (A JSON-serializable
  body always has a serialization or makes the serialization throw.)
\<close>

theorem respond_head:
  assumes "respond_flag c \<noteq> Bool False" and "writable c"
      and "\<not> statuses_empty (status c)" and "req_method c = ''HEAD''"
  shows "(headersSent c \<or> \<not> isJSON (body c) \<longrightarrow>
            (\<exists>c'. respond statuses_empty c = Inr c' \<and>
               ended c' \<and> payload c' = payload c \<and> clength c' = clength c)) \<and>
         (\<not> headersSent c \<and> body c = BVal v \<and> isJSON (BVal v) \<and>
          JSON_stringify v = Inr (Some json) \<longrightarrow>
            (\<exists>c'. respond statuses_empty c = Inr c' \<and>
               ended c' \<and> payload c' = payload c \<and> clength c' = Some (length json))) \<and>
         (\<not> headersSent c \<and> body c = BVal v \<and> isJSON (BVal v) \<and>
          JSON_stringify v = Inl e \<longrightarrow>
            respond statuses_empty c = Inl e) \<and>
         (isJSON (body c) \<longrightarrow> (\<exists>w. body c = BVal w \<and> JSON_stringify w \<noteq> Inr None))"
proof (intro conjI impI)
  assume "headersSent c \<or> \<not> isJSON (body c)"
  then show "\<exists>c'. respond statuses_empty c = Inr c' \<and>
               ended c' \<and> payload c' = payload c \<and> clength c' = clength c"
    using assms by (auto simp: respond_def res_end_def)
next
  assume "\<not> headersSent c \<and> body c = BVal v \<and> isJSON (BVal v) \<and>
          JSON_stringify v = Inr (Some json)"
  then show "\<exists>c'. respond statuses_empty c = Inr c' \<and>
               ended c' \<and> payload c' = payload c \<and> clength c' = Some (length json)"
    using assms by (simp add: respond_def res_end_def byteLength_def)
next
  assume "\<not> headersSent c \<and> body c = BVal v \<and> isJSON (BVal v) \<and> JSON_stringify v = Inl e"
  then show "respond statuses_empty c = Inl e"
    using assms by (simp add: respond_def)
next
  assume "isJSON (body c)"
  then show "\<exists>w. body c = BVal w \<and> JSON_stringify w \<noteq> Inr None"
    using isJSON_BVal stringify_defined by blast
qed

lemma a_is_1_json:
  "JSON_stringify a_is_1 = Inr (Some (CHR ''{'' # CHR 0x22 # CHR ''a'' # CHR 0x22 # '':1}''))"
  by (simp add: a_is_1_def quote_def escape_char_def String_of_def digits.simps)

text \<open>
  Claim C7, amended, at the body \<open>{"a":1}\<close>, for which the content-length is 7 when
  headers are not sent and is left alone when they are, and at a body holding a BigInt,
  for which \<open>respond\<close> throws.
\<close>

theorem respond_head_witness:
  "(\<exists>c'. respond no_body_codes (fresh_context\<lparr>req_method := ''HEAD'', body := BVal a_is_1\<rparr>) = Inr c' \<and>
      ended c' \<and> payload c' = [] \<and> clength c' = Some 7) \<and>
   (\<exists>c'. respond no_body_codes
        (fresh_context\<lparr>req_method := ''HEAD'', body := BVal a_is_1, headersSent := True\<rparr>) = Inr c' \<and>
      ended c' \<and> payload c' = [] \<and> clength c' = None) \<and>
   respond no_body_codes (fresh_context\<lparr>req_method := ''HEAD'', body := BVal (Obj [(''a'', BigInt 1)])\<rparr>) =
     Inl (new_TypeError ''Do not know how to serialize a BigInt'')"
proof (intro conjI)
  let ?c = "fresh_context\<lparr>req_method := ''HEAD'', body := BVal a_is_1\<rparr>"
  have hyps: "respond_flag ?c \<noteq> Bool False" "writable ?c" "\<not> no_body_codes (status ?c)"
      "req_method ?c = ''HEAD''"
    by (simp_all add: fresh_context_def no_body_codes_def)
  have "\<not> headersSent ?c \<and> body ?c = BVal a_is_1 \<and> isJSON (BVal a_is_1) \<and>
      JSON_stringify a_is_1 = Inr (Some (CHR ''{'' # CHR 0x22 # CHR ''a'' # CHR 0x22 # '':1}''))"
    by (simp add: fresh_context_def a_is_1_json) (simp add: a_is_1_def)
  with respond_head [of ?c no_body_codes a_is_1
      "CHR ''{'' # CHR 0x22 # CHR ''a'' # CHR 0x22 # '':1}''", OF hyps]
  show "\<exists>c'. respond no_body_codes ?c = Inr c' \<and> ended c' \<and> payload c' = [] \<and> clength c' = Some 7"
    by (simp add: fresh_context_def eval_nat_numeral)
next
  let ?c = "fresh_context\<lparr>req_method := ''HEAD'', body := BVal a_is_1, headersSent := True\<rparr>"
  have hyps: "respond_flag ?c \<noteq> Bool False" "writable ?c" "\<not> no_body_codes (status ?c)"
      "req_method ?c = ''HEAD''"
    by (simp_all add: fresh_context_def no_body_codes_def)
  have "headersSent ?c" by simp
  with respond_head [of ?c no_body_codes, OF hyps]
  show "\<exists>c'. respond no_body_codes ?c = Inr c' \<and> ended c' \<and> payload c' = [] \<and> clength c' = None"
    by (simp add: fresh_context_def)
next
  let ?c = "fresh_context\<lparr>req_method := ''HEAD'', body := BVal (Obj [(''a'', BigInt 1)])\<rparr>"
  have hyps: "respond_flag ?c \<noteq> Bool False" "writable ?c" "\<not> no_body_codes (status ?c)"
      "req_method ?c = ''HEAD''"
    by (simp_all add: fresh_context_def no_body_codes_def)
  have "\<not> headersSent ?c \<and> body ?c = BVal (Obj [(''a'', BigInt 1)]) \<and>
      isJSON (BVal (Obj [(''a'', BigInt 1)])) \<and>
      JSON_stringify (Obj [(''a'', BigInt 1)]) =
        Inl (new_TypeError ''Do not know how to serialize a BigInt'')"
    by (simp add: fresh_context_def)
  with respond_head [of ?c no_body_codes "Obj [(''a'', BigInt 1)]" _
      "new_TypeError ''Do not know how to serialize a BigInt''", OF hyps]
  show "respond no_body_codes ?c = Inl (new_TypeError ''Do not know how to serialize a BigInt'')"
    by blast
qed

text \<open>
  Claim C7 as stated fails for a bypassed context (\<open>ctx.respond === false\<close>): with method
  HEAD, a status that is not body-forbidden, headers not sent and the body \<open>{"a":1}\<close>,
  \<open>respond\<close> neither sets the content-length nor ends the response.
\<close>

theorem respond_head_counterexample:
  "req_method (fresh_context\<lparr>respond_flag := Bool False, req_method := ''HEAD'', body := BVal a_is_1\<rparr>) = ''HEAD'' \<and>
   \<not> no_body_codes (status (fresh_context\<lparr>respond_flag := Bool False, req_method := ''HEAD'', body := BVal a_is_1\<rparr>)) \<and>
   \<not> headersSent (fresh_context\<lparr>respond_flag := Bool False, req_method := ''HEAD'', body := BVal a_is_1\<rparr>) \<and>
   isJSON (body (fresh_context\<lparr>respond_flag := Bool False, req_method := ''HEAD'', body := BVal a_is_1\<rparr>)) \<and>
   respond no_body_codes (fresh_context\<lparr>respond_flag := Bool False, req_method := ''HEAD'', body := BVal a_is_1\<rparr>) =
     Inr (fresh_context\<lparr>respond_flag := Bool False, req_method := ''HEAD'', body := BVal a_is_1,
            clength := None, ended := False\<rparr>)"
  by (simp add: fresh_context_def no_body_codes_def a_is_1_def respond_def)

lemma respond_flag_irrelevant:
  assumes "respond_flag c \<noteq> Bool False" and "flag \<noteq> Bool False"
  shows "respond statuses_empty (c\<lparr>respond_flag := flag\<rparr>) =
           map_sum id (\<lambda>c'. c'\<lparr>respond_flag := flag\<rparr>) (respond statuses_empty c)"
  using assms
  by (simp add: respond_def res_end_def Let_def
        split: body.splits jsval.splits sum.splits option.splits)

text \<open>
  Claim C10.  \<open>respond\<close> returns at once, without any effect, when \<open>ctx.respond\<close> is the
  boolean \<open>false\<close>.  For every other value it goes on to the writability check, where it
  returns without any effect when the transport is not writable, and then to the decision
  table: what it does is the same for all these values of \<open>ctx.respond\<close>, and on a
  writable context whose response is still open it is never without effect.
\<close>

theorem respond_bypass_strict:
  "(respond_flag c = Bool False \<longrightarrow> respond statuses_empty c = Inr c) \<and>
   (respond_flag c \<noteq> Bool False \<and> \<not> writable c \<longrightarrow> respond statuses_empty c = Inr c) \<and>
   (respond_flag c \<noteq> Bool False \<and> flag \<noteq> Bool False \<longrightarrow>
      respond statuses_empty (c\<lparr>respond_flag := flag\<rparr>) =
        map_sum id (\<lambda>c'. c'\<lparr>respond_flag := flag\<rparr>) (respond statuses_empty c)) \<and>
   (respond_flag c \<noteq> Bool False \<and> writable c \<and> \<not> ended c \<and> piped c = None \<longrightarrow>
      respond statuses_empty c \<noteq> Inr c)"
proof (intro conjI impI)
  assume "respond_flag c = Bool False"
  then show "respond statuses_empty c = Inr c" by (simp add: respond_def)
next
  assume "respond_flag c \<noteq> Bool False \<and> \<not> writable c"
  then show "respond statuses_empty c = Inr c" by (simp add: respond_def)
next
  assume "respond_flag c \<noteq> Bool False \<and> flag \<noteq> Bool False"
  then show "respond statuses_empty (c\<lparr>respond_flag := flag\<rparr>) =
        map_sum id (\<lambda>c'. c'\<lparr>respond_flag := flag\<rparr>) (respond statuses_empty c)"
    by (simp add: respond_flag_irrelevant)
next
  assume h: "respond_flag c \<noteq> Bool False \<and> writable c \<and> \<not> ended c \<and> piped c = None"
  then have "\<forall>c'. respond statuses_empty c = Inr c' \<longrightarrow> ended c' \<or> piped c' \<noteq> None"
    by (auto simp: respond_def res_end_def Let_def
             split: if_splits body.splits jsval.splits sum.splits option.splits)
  with h show "respond statuses_empty c \<noteq> Inr c" by auto
qed

text \<open>
  Claim C10 at the value \<open>false\<close>, which bypasses; at \<open>0\<close> on a transport that is not
  writable; and at \<open>0\<close>, \<open>null\<close>, the empty string and \<open>undefined\<close>, for which the response
  is written as for a context without the flag.
\<close>

theorem respond_bypass_strict_witness:
  "respond no_body_codes (fresh_context\<lparr>respond_flag := Bool False\<rparr>) =
     Inr (fresh_context\<lparr>respond_flag := Bool False\<rparr>) \<and>
   respond no_body_codes (fresh_context\<lparr>respond_flag := Num (Safe 0), writable := False\<rparr>) =
     Inr (fresh_context\<lparr>respond_flag := Num (Safe 0), writable := False\<rparr>) \<and>
   respond no_body_codes (fresh_context\<lparr>respond_flag := Num (Safe 0)\<rparr>) =
     Inr (fresh_context\<lparr>respond_flag := Num (Safe 0), ctype := Some ''text'', clength := Some 2,
            ended := True, payload := ''OK''\<rparr>) \<and>
   respond no_body_codes (fresh_context\<lparr>respond_flag := Null\<rparr>) =
     Inr (fresh_context\<lparr>respond_flag := Null, ctype := Some ''text'', clength := Some 2,
            ended := True, payload := ''OK''\<rparr>) \<and>
   respond no_body_codes (fresh_context\<lparr>respond_flag := Str []\<rparr>) =
     Inr (fresh_context\<lparr>respond_flag := Str [], ctype := Some ''text'', clength := Some 2,
            ended := True, payload := ''OK''\<rparr>) \<and>
   respond no_body_codes (fresh_context\<lparr>respond_flag := Undefined\<rparr>) \<noteq>
     Inr (fresh_context\<lparr>respond_flag := Undefined\<rparr>)"
proof -
  have u: "respond_flag fresh_context \<noteq> Bool False" "writable fresh_context"
      "\<not> ended fresh_context" "piped fresh_context = None"
    by (simp_all add: fresh_context_def)
  have r: "respond no_body_codes fresh_context =
     Inr (fresh_context\<lparr>ctype := Some ''text'', clength := Some 2, ended := True, payload := ''OK''\<rparr>)"
    by (simp add: respond_def fresh_context_def no_body_codes_def reason_phrase_def res_end_def)
  have n: "respond_flag (fresh_context\<lparr>respond_flag := Num (Safe 0), writable := False\<rparr>) \<noteq> Bool False \<and>
      \<not> writable (fresh_context\<lparr>respond_flag := Num (Safe 0), writable := False\<rparr>)"
    by simp
  show ?thesis
    using u r n
      respond_bypass_strict [where c = "fresh_context\<lparr>respond_flag := Bool False\<rparr>"
        and statuses_empty = no_body_codes]
      respond_bypass_strict [where c = "fresh_context\<lparr>respond_flag := Num (Safe 0), writable := False\<rparr>"
        and statuses_empty = no_body_codes]
      respond_bypass_strict [where c = fresh_context and flag = "Num (Safe 0)"
        and statuses_empty = no_body_codes]
      respond_bypass_strict [where c = fresh_context and flag = Null and statuses_empty = no_body_codes]
      respond_bypass_strict [where c = fresh_context and flag = "Str []" and statuses_empty = no_body_codes]
      respond_bypass_strict [where c = "fresh_context\<lparr>respond_flag := Undefined\<rparr>"
        and statuses_empty = no_body_codes]
    by (simp add: fresh_context_def)
qed




text \<open>
  Claim C3, amended.  For every request, the pipeline returns a promise; when it resolves,
  \<open>handleResponse\<close> (the finalizer) is called once, and \<open>onerror\<close> is called after it,
  once, exactly when the finalizer throws; when it rejects, only \<open>onerror\<close> is called,
  once.  So at least one of the two is called, and neither twice.
\<close>

theorem handleRequest_callbacks:
  "\<exists>out s.
     pipeline middleware None
       ((run_state r)\<lparr>ctx := (ctx (run_state r))\<lparr>status := Safe 404\<rparr>\<rparr>) = (Returns out, s) \<and>
     calls (snd (handleRequest statuses_empty ctx_onerror (pipeline middleware None) r)) =
       calls r @
       (case out of
          Resolved \<Rightarrow>
            (case respond statuses_empty (ctx s) of
               Inr c \<Rightarrow> [HandleResponse]
             | Inl e \<Rightarrow> [HandleResponse, OnError e])
        | Rejected e \<Rightarrow> [OnError e])"
proof -
  let ?s1 = "(run_state r)\<lparr>ctx := (ctx (run_state r))\<lparr>status := Safe 404\<rparr>\<rparr>"
  obtain x s where xs: "pipeline middleware None ?s1 = (x, s)" by fastforce
  then obtain out where out: "x = Returns out"
    using dispatch_returns [of middleware None "length (cursors ?s1)" 0 "?s1\<lparr>cursors := cursors ?s1 @ [- 1]\<rparr>"]
    by (auto simp: pipeline_def Let_def)
  have "calls (snd (handleRequest statuses_empty ctx_onerror (pipeline middleware None) r)) =
       calls r @
       (case out of
          Resolved \<Rightarrow>
            (case respond statuses_empty (ctx s) of
               Inr c \<Rightarrow> [HandleResponse]
             | Inl e \<Rightarrow> [HandleResponse, OnError e])
        | Rejected e \<Rightarrow> [OnError e])"
    using xs out
    by (cases out)
       (auto simp: handleRequest_def call_handleResponse_def call_onerror_def Let_def
             split: sum.splits)
  with xs out show ?thesis by blast
qed

text \<open>
  Claim C3 as stated fails: a pipeline that sets a body holding a BigInt resolves, the
  finalizer runs and throws from \<open>JSON.stringify\<close>, and the error handler runs as well.
\<close>

theorem handleRequest_callbacks_counterexample:
  "calls (snd (handleRequest no_body_codes ignore_error (pipeline [run set_bigint_body] None) fresh_request)) =
     [HandleResponse, OnError (new_TypeError ''Do not know how to serialize a BigInt'')]"
  by (simp add: handleRequest_def call_handleResponse_def call_onerror_def Let_def
        fresh_request_def fresh_context_def pipeline_def dispatch_apply select_fn_def
        set_bigint_body_def respond_def no_body_codes_def ignore_error_def)

end
